theory Spec2Isabelle
  imports Main "HOL-Library.AList"
begin

section \<open>JavaScript values handled by the collection\<close>

text \<open>
  The collection of \<^verbatim>\<open>packages/xo-collection/src/collection.js\<close> stores opaque
  values under string or number keys. The values a caller hands to it are modelled as
  primitives and plain data objects (own data properties, prototype
  \<^verbatim>\<open>Object.prototype\<close>); functions, arrays and class instances are outside this
  universe. A number is either a safe integer (\<open>JInt i\<close> with the magnitude of \<open>i\<close> at
  most \<^verbatim>\<open>2^53 - 1\<close>, where \<^verbatim>\<open>String(n)\<close> is the exact decimal numeral) or a
  number that is not an integer (a fraction, \<^verbatim>\<open>NaN\<close>, an infinity), carried as
  the text \<^verbatim>\<open>String(n)\<close> gives it. Integers of larger magnitude, which
  \<^verbatim>\<open>String\<close> writes with shortest round-trip digits or in exponent form, are not
  modelled: \<open>JInt i\<close> stands for a number only when \<open>i\<close> is in the safe range.
\<close>

datatype jsnum = JInt int | JOther string

datatype jsval =
    JUndefined
  | JNull
  | JBool bool
  | JNum jsnum
  | JStr string
  | JObj "(string \<times> jsval) list"

text \<open>
  A read through the prototype chain of the item object can also produce what
  \<^verbatim>\<open>Object.prototype\<close> holds: one of its built-in methods, or (through the
  \<^verbatim>\<open>__proto__\<close> getter) \<^verbatim>\<open>Object.prototype\<close> itself.
\<close>

datatype readval = Val jsval | Builtin string | ObjectPrototypeItself

fun typeof :: "jsval \<Rightarrow> string" where
  "typeof JUndefined = ''undefined''"
| "typeof JNull = ''object''"
| "typeof (JBool b) = ''boolean''"
| "typeof (JNum n) = ''number''"
| "typeof (JStr s) = ''string''"
| "typeof (JObj ps) = ''object''"

fun truthy :: "jsval \<Rightarrow> bool" where
  "truthy JUndefined = False"
| "truthy JNull = False"
| "truthy (JBool b) = b"
| "truthy (JNum (JInt i)) = (i \<noteq> 0)"
| "truthy (JNum (JOther t)) = (t \<noteq> ''NaN'')"
| "truthy (JStr s) = (s \<noteq> [])"
| "truthy (JObj ps) = True"

subsection \<open>Property keys\<close>

fun digit_char :: "nat \<Rightarrow> char" where
  "digit_char n = char_of (48 + n)"

fun string_of_nat :: "nat \<Rightarrow> string" where
  "string_of_nat n =
     (if n < 10 then [digit_char n] else string_of_nat (n div 10) @ [digit_char (n mod 10)])"

text \<open>The decimal numeral of an integer: what \<^verbatim>\<open>String(n)\<close> gives for a safe
  integer (it differs from \<^verbatim>\<open>String(n)\<close> beyond \<^verbatim>\<open>2^53 - 1\<close>, where no number
  is modelled).\<close>

definition string_of_int :: "int \<Rightarrow> string" where
  "string_of_int i = (if i < 0 then CHR ''-'' # string_of_nat (nat (- i)) else string_of_nat (nat i))"

fun string_of_jsnum :: "jsnum \<Rightarrow> string" where
  "string_of_jsnum (JInt i) = string_of_int i"
| "string_of_jsnum (JOther t) = t"

text \<open>
  A key that passed validation is a string or a number; used as a property name it is
  converted to a string, so the number \<^verbatim>\<open>1\<close> and the string \<^verbatim>\<open>'1'\<close> name the
  same property.
\<close>

datatype jskey = KeyStr string | KeyNum jsnum

fun property_key :: "jskey \<Rightarrow> string" where
  "property_key (KeyStr s) = s"
| "property_key (KeyNum n) = string_of_jsnum n"

fun key_of :: "jsval \<Rightarrow> jskey option" where
  "key_of (JStr s) = Some (KeyStr s)"
| "key_of (JNum n) = Some (KeyNum n)"
| "key_of v = None"

fun key_value :: "jskey \<Rightarrow> jsval" where
  "key_value (KeyStr s) = JStr s"
| "key_value (KeyNum n) = JNum n"

subsection \<open>The item object\<close>

text \<open>
  \<^verbatim>\<open>this._items = {} // Object.create(null)\<close>: the item mapping is an ordinary
  object whose prototype is \<^verbatim>\<open>Object.prototype\<close>, unlike \<^verbatim>\<open>_buffer\<close>,
  \<^verbatim>\<open>_indexes\<close> and \<^verbatim>\<open>_indexedItems\<close>, which have no prototype. Its
  prototype can be replaced through the inherited \<^verbatim>\<open>__proto__\<close> accessor. Objects
  are association lists in creation order; JavaScript enumerates integer-like names
  before the others, and the properties below are stated on lookups and key sets, not
  on that order.
\<close>

datatype proto = ProtoNull | ProtoObjectPrototype | ProtoObj "(string \<times> jsval) list"

record js_object =
  own :: "(string \<times> jsval) list"
  prototype :: proto

definition empty_object :: js_object where
  "empty_object = \<lparr>own = [], prototype = ProtoObjectPrototype\<rparr>"

definition object_prototype_methods :: "string list" where
  "object_prototype_methods =
     [''constructor'', ''hasOwnProperty'', ''isPrototypeOf'', ''propertyIsEnumerable'',
      ''toLocaleString'', ''toString'', ''valueOf'', ''__defineGetter__'',
      ''__defineSetter__'', ''__lookupGetter__'', ''__lookupSetter__'']"

definition has_own :: "js_object \<Rightarrow> string \<Rightarrow> bool" where
  "has_own ob k = (map_of (own ob) k \<noteq> None)"

definition own_keys :: "js_object \<Rightarrow> string list" where
  "own_keys ob = map fst (own ob)"

text \<open>The \<^verbatim>\<open>__proto__\<close> setter of \<^verbatim>\<open>Object.prototype\<close>: an object or null
  becomes the prototype, any other value is ignored.\<close>

fun proto_setter :: "js_object \<Rightarrow> jsval \<Rightarrow> js_object" where
  "proto_setter ob (JObj ps) = ob\<lparr>prototype := ProtoObj ps\<rparr>"
| "proto_setter ob JNull = ob\<lparr>prototype := ProtoNull\<rparr>"
| "proto_setter ob v = ob"

text \<open>Whether the lookup of \<open>k\<close> along the prototype chain ends at the
  \<^verbatim>\<open>__proto__\<close> accessor.\<close>

fun reaches_proto_accessor :: "proto \<Rightarrow> string \<Rightarrow> bool" where
  "reaches_proto_accessor ProtoNull k = False"
| "reaches_proto_accessor ProtoObjectPrototype k = (k = ''__proto__'')"
| "reaches_proto_accessor (ProtoObj ps) k = (map_of ps k = None \<and> k = ''__proto__'')"

text \<open>\<^verbatim>\<open>ob[k] = v\<close>: an own property is overwritten in place; otherwise a new own
  property is created, except where the chain leads to the \<^verbatim>\<open>__proto__\<close> setter.\<close>

definition obj_set :: "js_object \<Rightarrow> string \<Rightarrow> jsval \<Rightarrow> js_object" where
  "obj_set ob k v =
     (if has_own ob k then ob\<lparr>own := AList.update k v (own ob)\<rparr>
      else if reaches_proto_accessor (prototype ob) k then proto_setter ob v
      else ob\<lparr>own := AList.update k v (own ob)\<rparr>)"

text \<open>\<^verbatim>\<open>delete ob[k]\<close>.\<close>

definition obj_delete :: "js_object \<Rightarrow> string \<Rightarrow> js_object" where
  "obj_delete ob k = ob\<lparr>own := AList.delete k (own ob)\<rparr>"

definition object_prototype_get :: "proto \<Rightarrow> string \<Rightarrow> readval" where
  "object_prototype_get p k =
     (if k = ''__proto__'' then (case p of ProtoObj ps \<Rightarrow> Val (JObj ps) | _ \<Rightarrow> ObjectPrototypeItself)
      else if k \<in> set object_prototype_methods then Builtin k
      else Val JUndefined)"

text \<open>\<^verbatim>\<open>ob[k]\<close>: own property, then the prototype chain.\<close>

definition obj_get :: "js_object \<Rightarrow> string \<Rightarrow> readval" where
  "obj_get ob k =
     (case map_of (own ob) k of
        Some v \<Rightarrow> Val v
      | None \<Rightarrow>
          (case prototype ob of
             ProtoNull \<Rightarrow> Val JUndefined
           | ProtoObjectPrototype \<Rightarrow> object_prototype_get (prototype ob) k
           | ProtoObj ps \<Rightarrow>
               (case map_of ps k of
                  Some v \<Rightarrow> Val v
                | None \<Rightarrow> object_prototype_get (prototype ob) k)))"

section \<open>The collection\<close>

datatype error =
    BufferAlreadyFlushed
  | DuplicateIndex string
  | DuplicateItem jskey
  | IllegalTouch jsval
  | InvalidKey jsval
  | NoSuchIndex string
  | NoSuchItem jskey

datatype action = Add | Remove | Update

text \<open>What \<^verbatim>\<open>emit\<close> publishes: \<^verbatim>\<open>emit(action, items)\<close> and
  \<^verbatim>\<open>emit('finish')\<close>.\<close>

datatype event = Emit action "(string \<times> readval) list" | Finish

text \<open>The calls the collection makes into an index object. \<open>Notify\<close> stands for the
  per-mutation notification the specification speaks of.\<close>

datatype index_call = AttachCollection | DetachCollection | Notify action jskey jsval

text \<open>
  The fields of the class, then what its environment holds: the \<^verbatim>\<open>called\<close> flag of
  every flush closure made so far (closures are numbered in creation order), the
  \<^verbatim>\<open>process.nextTick\<close> queue, the events emitted, and the calls made into indexes.
  An index is an external object; the model keeps its \<^verbatim>\<open>items\<close> view. Listeners
  of the emitter and the bodies of the index hooks are outside the model: \<^verbatim>\<open>emit\<close>
  and the hook calls are recorded, not run.
\<close>

record collection =
  buffer :: "(string \<times> action) list"
  buffering :: int
  indexes :: "(string \<times> (string \<times> jsval) list) list"
  indexedItems :: "(string \<times> (string \<times> jsval) list) list"
  items :: js_object
  size_c :: int
  called :: "nat set"
  closures :: nat
  nextTick :: "nat list"
  emitted :: "event list"
  index_calls :: "(string \<times> index_call) list"

definition constructor :: collection where
  "constructor =
     \<lparr>buffer = [], buffering = 0, indexes = [], indexedItems = [],
      items = empty_object, size_c = 0,
      called = {}, closures = 0, nextTick = [], emitted = [], index_calls = []\<rparr>"

type_synonym 'a result = "(error + 'a) \<times> collection"

subsection \<open>Key resolution\<close>

fun obj_prop :: "jsval \<Rightarrow> string \<Rightarrow> jsval" where
  "obj_prop (JObj ps) k = (case map_of ps k of Some v \<Rightarrow> v | None \<Rightarrow> JUndefined)"
| "obj_prop v k = JUndefined"

text \<open>\<^verbatim>\<open>getKey (value) { return value && value.id }\<close>, the default key extraction.\<close>

definition getKey :: "jsval \<Rightarrow> jsval" where
  "getKey v = (if truthy v then obj_prop v ''id'' else v)"

definition u_isValidKey :: "jsval \<Rightarrow> bool" where
  "u_isValidKey key = (typeof key = ''number'' \<or> typeof key = ''string'')"

definition u_assertValidKey :: "jsval \<Rightarrow> error + jskey" where
  "u_assertValidKey key = (case key_of key of None \<Rightarrow> Inl (InvalidKey key) | Some k \<Rightarrow> Inr k)"

definition u_resolveItem :: "jsval \<Rightarrow> jsval \<Rightarrow> error + (jskey \<times> jsval)" where
  "u_resolveItem keyOrObjectWithId valueIfKey =
     (if valueIfKey \<noteq> JUndefined then
        (case u_assertValidKey keyOrObjectWithId of
           Inl e \<Rightarrow> Inl e
         | Inr k \<Rightarrow> Inr (k, valueIfKey))
      else if u_isValidKey keyOrObjectWithId then
        (case u_assertValidKey keyOrObjectWithId of
           Inl e \<Rightarrow> Inl e
         | Inr k \<Rightarrow> Inr (k, JUndefined))
      else
        (case u_assertValidKey (getKey keyOrObjectWithId) of
           Inl e \<Rightarrow> Inl e
         | Inr k \<Rightarrow> Inr (k, keyOrObjectWithId)))"

subsection \<open>Query\<close>

definition has :: "collection \<Rightarrow> jskey \<Rightarrow> bool" where
  "has c key = has_own (items c) (property_key key)"

text \<open>\<^verbatim>\<open>get (key, defaultValue)\<close>: \<open>None\<close> is a call with one argument,
  \<open>Some d\<close> a call with two (\<^verbatim>\<open>arguments.length > 1\<close>). \<^verbatim>\<open>has(key)\<close> is the
  presence of the own property, whose value is then returned.\<close>

definition get :: "collection \<Rightarrow> jskey \<Rightarrow> jsval option \<Rightarrow> error + jsval" where
  "get c key defaultValue =
     (case map_of (own (items c)) (property_key key) of
        Some v \<Rightarrow> Inr v
      | None \<Rightarrow>
          (case defaultValue of
             Some d \<Rightarrow> Inr d
           | None \<Rightarrow> Inl (NoSuchItem key)))"

subsection \<open>Events buffering\<close>

text \<open>\<^verbatim>\<open>bufferEvents\<close> returns a closure; the model returns its number.\<close>

definition bufferEvents :: "collection \<Rightarrow> nat \<times> collection" where
  "bufferEvents c =
     (closures c, c\<lparr>buffering := buffering c + 1, closures := closures c + 1\<rparr>)"

text \<open>Modelled from the spec: \<^verbatim>\<open>./is-empty\<close> is not among the sources; the
  specification says the flush emits nothing when the pending log is empty.\<close>

definition isEmpty :: "('k \<times> 'v) list \<Rightarrow> bool" where
  "isEmpty ob = (ob = [])"

text \<open>The entries of \<^verbatim>\<open>data[action]\<close> after the \<^verbatim>\<open>for (let key in this._buffer)\<close>
  loop.\<close>

definition data_of :: "collection \<Rightarrow> action \<Rightarrow> (string \<times> readval) list" where
  "data_of c a =
     map (\<lambda>(k, b). (k, obj_get (items c) k)) (filter (\<lambda>(k, b). b = a) (buffer c))"

definition emit_data :: "collection \<Rightarrow> action \<Rightarrow> event list" where
  "emit_data c a = (if \<not> isEmpty (data_of c a) then [Emit a (data_of c a)] else [])"

text \<open>The closure returned by \<^verbatim>\<open>bufferEvents\<close>, invoked.\<close>

definition flush :: "nat \<Rightarrow> collection \<Rightarrow> unit result" where
  "flush h c =
     (if h \<in> called c then (Inl BufferAlreadyFlushed, c)
      else
        let c1 = c\<lparr>called := insert h (called c), buffering := buffering c - 1\<rparr> in
        if buffering c1 \<noteq> 0 then (Inr (), c1)
        else if isEmpty (buffer c1) then (Inr (), c1)
        else
          (Inr (),
           c1\<lparr>emitted := emitted c1 @ emit_data c1 Add @ emit_data c1 Remove
                            @ emit_data c1 Update @ [Finish],
              buffer := []\<rparr>))"

definition u_touch :: "action \<Rightarrow> jskey \<Rightarrow> collection \<Rightarrow> collection" where
  "u_touch act key c =
     (let c1 = (if buffering c = 0
                then (case bufferEvents c of (fl, c') \<Rightarrow> c'\<lparr>nextTick := nextTick c' @ [fl]\<rparr>)
                else c);
          k = property_key key
      in case act of
           Add \<Rightarrow>
             c1\<lparr>buffer := AList.update k
                   (if map_of (buffer c1) k \<noteq> None then Update else Add) (buffer c1)\<rparr>
         | Remove \<Rightarrow>
             (if map_of (buffer c1) k = Some Add
              then c1\<lparr>buffer := AList.delete k (buffer c1)\<rparr>
              else c1\<lparr>buffer := AList.update k Remove (buffer c1)\<rparr>)
         | Update \<Rightarrow>
             (if map_of (buffer c1) k = None
              then c1\<lparr>buffer := AList.update k Update (buffer c1)\<rparr>
              else c1))"

subsection \<open>Manipulation\<close>

definition add :: "jsval \<Rightarrow> jsval \<Rightarrow> collection \<Rightarrow> unit result" where
  "add keyOrObjectWithId valueIfKey c =
     (case u_resolveItem keyOrObjectWithId valueIfKey of
        Inl e \<Rightarrow> (Inl e, c)
      | Inr (key, v) \<Rightarrow>
          if has c key then (Inl (DuplicateItem key), c)
          else
            (Inr (),
             u_touch Add key
               (c\<lparr>items := obj_set (items c) (property_key key) v, size_c := size_c c + 1\<rparr>)))"

definition remove :: "jsval \<Rightarrow> collection \<Rightarrow> unit result" where
  "remove keyOrObjectWithId c =
     (case u_resolveItem keyOrObjectWithId JUndefined of
        Inl e \<Rightarrow> (Inl e, c)
      | Inr (key, v) \<Rightarrow>
          if \<not> has c key then (Inl (NoSuchItem key), c)
          else
            (Inr (),
             u_touch Remove key
               (c\<lparr>items := obj_delete (items c) (property_key key), size_c := size_c c - 1\<rparr>)))"

definition set_c :: "jsval \<Rightarrow> jsval \<Rightarrow> collection \<Rightarrow> unit result" where
  "set_c keyOrObjectWithId valueIfKey c =
     (case u_resolveItem keyOrObjectWithId valueIfKey of
        Inl e \<Rightarrow> (Inl e, c)
      | Inr (key, v) \<Rightarrow>
          let act = (if has c key then Update else Add);
              c1 = c\<lparr>items := obj_set (items c) (property_key key) v\<rparr>;
              c2 = (if act = Add then c1\<lparr>size_c := size_c c1 + 1\<rparr> else c1)
          in (Inr (), u_touch act key c2))"

definition touch :: "jsval \<Rightarrow> collection \<Rightarrow> jsval result" where
  "touch keyOrObjectWithId c =
     (case u_resolveItem keyOrObjectWithId JUndefined of
        Inl e \<Rightarrow> (Inl e, c)
      | Inr (key, v) \<Rightarrow>
          if \<not> has c key then (Inl (NoSuchItem key), c)
          else
            (case get c key None of
               Inl e \<Rightarrow> (Inl e, c)
             | Inr val \<Rightarrow>
                 if typeof val \<noteq> ''object'' \<or> val = JNull then (Inl (IllegalTouch val), c)
                 else
                   (let c1 = u_touch Update key c
                    in (get c1 key None, c1))))"

definition unset :: "jsval \<Rightarrow> collection \<Rightarrow> unit result" where
  "unset keyOrObjectWithId c =
     (case u_resolveItem keyOrObjectWithId JUndefined of
        Inl e \<Rightarrow> (Inl e, c)
      | Inr (key, v) \<Rightarrow>
          if has c key then
            (Inr (),
             u_touch Remove key
               (c\<lparr>items := obj_delete (items c) (property_key key), size_c := size_c c - 1\<rparr>))
          else (Inr (), c))"

definition update :: "jsval \<Rightarrow> jsval \<Rightarrow> collection \<Rightarrow> unit result" where
  "update keyOrObjectWithId valueIfKey c =
     (case u_resolveItem keyOrObjectWithId valueIfKey of
        Inl e \<Rightarrow> (Inl e, c)
      | Inr (key, v) \<Rightarrow>
          if \<not> has c key then (Inl (NoSuchItem key), c)
          else
            (Inr (),
             u_touch Update key (c\<lparr>items := obj_set (items c) (property_key key) v\<rparr>)))"

subsection \<open>clear\<close>

text \<open>
  \<^verbatim>\<open>clear\<close> walks the item object with \<^verbatim>\<open>forEach\<close> of the library
  \<^verbatim>\<open>lodash.foreach\<close>. That function iterates an object whose \<^verbatim>\<open>length\<close>
  property is a valid array length (a number that is an integer from 0 to
  \<^verbatim>\<open>2^53 - 1\<close>) like an array, calling back with the indices
  \<^verbatim>\<open>0 .. length - 1\<close> as keys; any other object is iterated over a snapshot of its own
  enumerable keys.
\<close>

fun isLength :: "readval \<Rightarrow> nat option" where
  "isLength (Val (JNum (JInt i))) = (if 0 \<le> i \<and> i \<le> 2 ^ 53 - 1 then Some (nat i) else None)"
| "isLength v = None"

definition forEach_keys :: "js_object \<Rightarrow> jskey list" where
  "forEach_keys ob =
     (case isLength (obj_get ob ''length'') of
        Some n \<Rightarrow> map (\<lambda>i. KeyNum (JInt (int i))) [0..<n]
      | None \<Rightarrow> map KeyStr (own_keys ob))"

text \<open>The body of the callback \<^verbatim>\<open>(_, key) => { ... }\<close> of \<^verbatim>\<open>clear\<close>.\<close>

definition clear_item :: "collection \<Rightarrow> jskey \<Rightarrow> collection" where
  "clear_item c key =
     u_touch Remove key
       (c\<lparr>items := obj_delete (items c) (property_key key), size_c := size_c c - 1\<rparr>)"

definition clear :: "collection \<Rightarrow> unit result" where
  "clear c = (Inr (), foldl clear_item c (forEach_keys (items c)))"

subsection \<open>Indexes\<close>

definition createIndex :: "string \<Rightarrow> (string \<times> jsval) list \<Rightarrow> collection \<Rightarrow> unit result" where
  "createIndex name index c =
     (if map_of (indexes c) name \<noteq> None then (Inl (DuplicateIndex name), c)
      else
        (Inr (),
         c\<lparr>indexes := AList.update name index (indexes c),
           indexedItems := AList.update name index (indexedItems c),
           index_calls := index_calls c @ [(name, AttachCollection)]\<rparr>))"

definition deleteIndex :: "string \<Rightarrow> collection \<Rightarrow> unit result" where
  "deleteIndex name c =
     (if map_of (indexes c) name = None then (Inl (NoSuchIndex name), c)
      else
        (Inr (),
         c\<lparr>indexes := AList.delete name (indexes c),
           indexedItems := AList.delete name (indexedItems c),
           index_calls := index_calls c @ [(name, DetachCollection)]\<rparr>))"

subsection \<open>Notions used to state the properties\<close>

text \<open>The value \<^verbatim>\<open>_resolveItem\<close> submits to key validation.\<close>

definition resolved_key :: "jsval \<Rightarrow> jsval \<Rightarrow> jsval" where
  "resolved_key keyOrObjectWithId valueIfKey =
     (if valueIfKey \<noteq> JUndefined then keyOrObjectWithId
      else if u_isValidKey keyOrObjectWithId then keyOrObjectWithId
      else getKey keyOrObjectWithId)"

text \<open>The key shape in the words of the specification: a string or an integer.\<close>

fun spec_string_or_integer :: "jsval \<Rightarrow> bool" where
  "spec_string_or_integer (JStr s) = True"
| "spec_string_or_integer (JNum (JInt i)) = True"
| "spec_string_or_integer v = False"

text \<open>An assignment \<^verbatim>\<open>ob[k] = v\<close> stores an own property \<open>k\<close>: it is one already,
  or the lookup does not end at the \<^verbatim>\<open>__proto__\<close> accessor.\<close>

definition ownable :: "js_object \<Rightarrow> string \<Rightarrow> bool" where
  "ownable ob k = (has_own ob k \<or> \<not> reaches_proto_accessor (prototype ob) k)"

text \<open>An item object as the operations produce it: each own property is listed once, and
  an own property \<^verbatim>\<open>__proto__\<close> exists only where an assignment can have created
  it. True of the new collection and kept by every operation.\<close>

definition wf_items :: "js_object \<Rightarrow> bool" where
  "wf_items ob =
     (distinct (own_keys ob)
      \<and> (has_own ob ''__proto__'' \<longrightarrow>
           \<not> reaches_proto_accessor (prototype ob) ''__proto__''))"

text \<open>Sequences of mutation operations; an operation that fails leaves the state as it
  was, as the exception thrown before any assignment does.\<close>

datatype operation =
    OpAdd jsval jsval
  | OpSet jsval jsval
  | OpUpdate jsval jsval
  | OpRemove jsval
  | OpUnset jsval
  | OpTouch jsval
  | OpClear

fun apply_op :: "collection \<Rightarrow> operation \<Rightarrow> collection" where
  "apply_op c (OpAdd a v) = snd (add a v c)"
| "apply_op c (OpSet a v) = snd (set_c a v c)"
| "apply_op c (OpUpdate a v) = snd (update a v c)"
| "apply_op c (OpRemove a) = snd (remove a c)"
| "apply_op c (OpUnset a) = snd (unset a c)"
| "apply_op c (OpTouch a) = snd (touch a c)"
| "apply_op c OpClear = snd (clear c)"

definition exec :: "collection \<Rightarrow> operation list \<Rightarrow> collection" where
  "exec c ops = foldl apply_op c ops"

text \<open>A run in which every \<^verbatim>\<open>clear\<close> finds an item object that \<^verbatim>\<open>forEach\<close>
  walks by its own keys (no \<^verbatim>\<open>length\<close> that is a valid array length).\<close>

fun own_key_clears :: "collection \<Rightarrow> operation list \<Rightarrow> bool" where
  "own_key_clears c [] = True"
| "own_key_clears c (op # ops) =
     ((op = OpClear \<longrightarrow> isLength (obj_get (items c) ''length'') = None)
      \<and> own_key_clears (apply_op c op) ops)"

text \<open>
  The pending-log entry of a property name \<open>x\<close> that was present at the last flush
  boundary: none or Updated while it is present, Removed while it is absent.
  For a name that was absent at the boundary: Added while present, none while absent.
\<close>

definition log_of_kept :: "collection \<Rightarrow> string \<Rightarrow> bool" where
  "log_of_kept c x =
     (\<not> reaches_proto_accessor (prototype (items c)) x \<and>
      (if has_own (items c) x
       then map_of (buffer c) x = None \<or> map_of (buffer c) x = Some Update
       else map_of (buffer c) x = Some Remove))"

definition log_of_new :: "collection \<Rightarrow> string \<Rightarrow> bool" where
  "log_of_new c x =
     (\<not> reaches_proto_accessor (prototype (items c)) x \<and>
      (if has_own (items c) x
       then map_of (buffer c) x = Some Add
       else map_of (buffer c) x = None))"

text \<open>The pending log names each key once, as the object \<^verbatim>\<open>_buffer\<close> does.\<close>

definition distinct_log :: "collection \<Rightarrow> bool" where
  "distinct_log c = distinct (map fst (buffer c))"

text \<open>The size field counts the own properties of the item object.\<close>

definition size_ok :: "collection \<Rightarrow> bool" where
  "size_ok c =
     (distinct (own_keys (items c)) \<and> size_c c = int (length (own_keys (items c))))"

text \<open>The property name an operation resolves to, if its key is valid.\<close>

fun op_property :: "operation \<Rightarrow> string option" where
  "op_property (OpAdd a v) =
     (case u_resolveItem a v of Inr (k, val) \<Rightarrow> Some (property_key k) | Inl e \<Rightarrow> None)"
| "op_property (OpSet a v) =
     (case u_resolveItem a v of Inr (k, val) \<Rightarrow> Some (property_key k) | Inl e \<Rightarrow> None)"
| "op_property (OpUpdate a v) =
     (case u_resolveItem a v of Inr (k, val) \<Rightarrow> Some (property_key k) | Inl e \<Rightarrow> None)"
| "op_property (OpRemove a) =
     (case u_resolveItem a JUndefined of Inr (k, val) \<Rightarrow> Some (property_key k) | Inl e \<Rightarrow> None)"
| "op_property (OpUnset a) =
     (case u_resolveItem a JUndefined of Inr (k, val) \<Rightarrow> Some (property_key k) | Inl e \<Rightarrow> None)"
| "op_property (OpTouch a) =
     (case u_resolveItem a JUndefined of Inr (k, val) \<Rightarrow> Some (property_key k) | Inl e \<Rightarrow> None)"
| "op_property OpClear = None"

text \<open>An operation that does not assign the name \<^verbatim>\<open>__proto__\<close>, and that,
  if it is \<^verbatim>\<open>clear\<close>, finds an item object \<^verbatim>\<open>forEach\<close> does not take for an
  array.\<close>

definition plain_op :: "collection \<Rightarrow> operation \<Rightarrow> bool" where
  "plain_op c op =
     (op_property op \<noteq> Some ''__proto__''
      \<and> (op = OpClear \<longrightarrow> isLength (obj_get (items c) ''length'') = None))"

fun plain_run :: "collection \<Rightarrow> operation list \<Rightarrow> bool" where
  "plain_run c [] = True"
| "plain_run c (op # ops) = (plain_op c op \<and> plain_run (apply_op c op) ops)"

text \<open>What the collection holds about indexes, and the calls it made into them.\<close>

definition index_part ::
  "collection \<Rightarrow> (string \<times> (string \<times> jsval) list) list \<times> (string \<times> (string \<times> jsval) list) list
     \<times> (string \<times> index_call) list" where
  "index_part c = (indexes c, indexedItems c, index_calls c)"

subsection \<open>Concrete stores used to instantiate the theorems\<close>

text \<open>The store after \<^verbatim>\<open>add('a', 1); add('b', 2)\<close> on a new collection: the first
  mutation opened a scope and scheduled its flush (closure 0).\<close>

definition store_ab :: collection where
  "store_ab =
     \<lparr>buffer = [(''a'', Add), (''b'', Add)], buffering = 1, indexes = [], indexedItems = [],
      items = \<lparr>own = [(''a'', JNum (JInt 1)), (''b'', JNum (JInt 2))],
               prototype = ProtoObjectPrototype\<rparr>,
      size_c = 2, called = {}, closures = 1, nextTick = [0], emitted = [],
      index_calls = []\<rparr>"

text \<open>\<open>store_ab\<close> after its scheduled flush has run: a flush boundary.\<close>

definition store_settled :: collection where
  "store_settled =
     store_ab\<lparr>buffer := [], buffering := 0, called := {0}, nextTick := [],
       emitted := [Emit Add [(''a'', Val (JNum (JInt 1))), (''b'', Val (JNum (JInt 2)))], Finish]\<rparr>"

text \<open>The store after \<^verbatim>\<open>add('length', 2)\<close> on a new collection.\<close>

definition store_length :: collection where
  "store_length =
     constructor\<lparr>buffer := [(''length'', Add)], buffering := 1,
       items := \<lparr>own = [(''length'', JNum (JInt 2))], prototype = ProtoObjectPrototype\<rparr>,
       size_c := 1, closures := 1, nextTick := [0]\<rparr>"

text \<open>The stores after \<^verbatim>\<open>add('__proto__', null)\<close> on a new collection, then
  \<^verbatim>\<open>add('__proto__', 5)\<close>, then \<^verbatim>\<open>remove('__proto__')\<close>, then
  \<^verbatim>\<open>add('__proto__', 7)\<close>, all in the scope the first call opened.\<close>

definition store_p1 :: collection where
  "store_p1 =
     constructor\<lparr>buffer := [(''__proto__'', Add)], buffering := 1,
       items := \<lparr>own = [], prototype = ProtoNull\<rparr>,
       size_c := 1, closures := 1, nextTick := [0]\<rparr>"

definition store_p2 :: collection where
  "store_p2 =
     store_p1\<lparr>buffer := [(''__proto__'', Update)],
       items := \<lparr>own = [(''__proto__'', JNum (JInt 5))], prototype = ProtoNull\<rparr>,
       size_c := 2\<rparr>"

definition store_p3 :: collection where
  "store_p3 =
     store_p1\<lparr>buffer := [(''__proto__'', Remove)],
       items := \<lparr>own = [], prototype = ProtoNull\<rparr>, size_c := 1\<rparr>"

definition store_p4 :: collection where
  "store_p4 =
     store_p1\<lparr>buffer := [(''__proto__'', Update)],
       items := \<lparr>own = [(''__proto__'', JNum (JInt 7))], prototype = ProtoNull\<rparr>,
       size_c := 2\<rparr>"

text \<open>\<open>store_length\<close> after \<^verbatim>\<open>clear()\<close>, then after \<^verbatim>\<open>add('0', 5)\<close>; and, the
  key removed again, after \<^verbatim>\<open>add('0', 6)\<close>.\<close>

definition store_length_cleared :: collection where
  "store_length_cleared =
     store_length\<lparr>buffer := [(''length'', Add), (''0'', Remove), (''1'', Remove)],
       size_c := - 1\<rparr>"

definition store_l3 :: collection where
  "store_l3 =
     store_length_cleared\<lparr>buffer := [(''length'', Add), (''0'', Update), (''1'', Remove)],
       items := \<lparr>own = [(''length'', JNum (JInt 2)), (''0'', JNum (JInt 5))],
                 prototype = ProtoObjectPrototype\<rparr>,
       size_c := 0\<rparr>"

definition store_l5 :: collection where
  "store_l5 =
     store_length_cleared\<lparr>buffer := [(''length'', Add), (''0'', Update), (''1'', Remove)],
       items := \<lparr>own = [(''length'', JNum (JInt 2)), (''0'', JNum (JInt 6))],
                 prototype = ProtoObjectPrototype\<rparr>,
       size_c := 0\<rparr>"

text \<open>A new collection with one index attached under the name \<^verbatim>\<open>byId\<close>.\<close>

definition store_indexed :: collection where
  "store_indexed =
     constructor\<lparr>indexes := [(''byId'', [])], indexedItems := [(''byId'', [])],
                 index_calls := [(''byId'', AttachCollection)]\<rparr>"

section \<open>Properties\<close>

subsection \<open>Flushing\<close>

lemma store_ab_reached:
  "store_ab = snd (add (JStr ''b'') (JNum (JInt 2)) (snd (add (JStr ''a'') (JNum (JInt 1)) constructor)))"
  by (simp add: store_ab_def add_def u_resolveItem_def u_assertValidKey_def has_def has_own_def
      obj_set_def u_touch_def bufferEvents_def constructor_def empty_object_def Let_def)

lemma flush_marks_called: "h \<in> called (snd (flush h c))"
  by (simp add: flush_def Let_def)


lemma flush_outer_empty:
  "h \<notin> called c \<Longrightarrow> buffering c = 1 \<Longrightarrow> buffer c = [] \<Longrightarrow>
     flush h c = (Inr (), c\<lparr>called := insert h (called c), buffering := 0\<rparr>)"
  by (simp add: flush_def Let_def isEmpty_def)

lemma flush_outer_nonempty:
  "h \<notin> called c \<Longrightarrow> buffering c = 1 \<Longrightarrow> buffer c \<noteq> [] \<Longrightarrow>
     flush h c =
       (Inr (),
        c\<lparr>called := insert h (called c), buffering := 0,
          emitted := emitted c @ emit_data c Add @ emit_data c Remove @ emit_data c Update @ [Finish],
          buffer := []\<rparr>)"
  by (simp add: flush_def Let_def isEmpty_def emit_data_def data_of_def)


lemma map_of_filter_action:
  "distinct (map fst xs) \<Longrightarrow>
     map_of (map (\<lambda>(k, b). (k, g k)) (filter (\<lambda>(k, b). b = a) xs)) k =
       (if map_of xs k = Some a then Some (g k) else None)"
proof (induction xs)
  case Nil
  then show ?case by simp
next
  case (Cons x xs)
  obtain k' b' where x: "x = (k', b')" by (cases x)
  from Cons.prems have nk: "k' \<notin> fst ` set xs" and d: "distinct (map fst xs)"
    by (auto simp: x)
  from nk have none: "map_of xs k' = None" by (simp add: map_of_eq_None_iff)
  show ?case using Cons.IH [OF d] none by (auto simp: x)
qed

lemma map_of_data_of:
  "distinct (map fst (buffer c)) \<Longrightarrow>
     map_of (data_of c a) k =
       (if map_of (buffer c) k = Some a then Some (obj_get (items c) k) else None)"
  unfolding data_of_def by (rule map_of_filter_action)

lemma keys_data_of: "fst ` set (data_of c a) = {k. (k, a) \<in> set (buffer c)}"
  by (force simp: data_of_def)







text \<open>
  Claim C5. Invoking a flush closure again fails with \<^verbatim>\<open>BufferAlreadyFlushed\<close>
  and leaves the whole state as the first invocation left it: \<^verbatim>\<open>_buffering\<close>, the
  pending log, the items and the events already emitted.
\<close>

theorem flush_second_invocation_fails:
  "flush h (snd (flush h c)) = (Inl BufferAlreadyFlushed, snd (flush h c))"
  using flush_marks_called [of h c] by (simp add: flush_def [of h "snd (flush h c)"])

theorem flush_second_invocation_fails_witness:
  "flush 0 store_ab =
     (Inr (),
      store_ab\<lparr>called := {0}, buffering := 0,
        emitted := [Emit Add [(''a'', Val (JNum (JInt 1))), (''b'', Val (JNum (JInt 2)))], Finish],
        buffer := []\<rparr>)
   \<and> flush 0 (snd (flush 0 store_ab)) =
     (Inl BufferAlreadyFlushed,
      store_ab\<lparr>called := {0}, buffering := 0,
        emitted := [Emit Add [(''a'', Val (JNum (JInt 1))), (''b'', Val (JNum (JInt 2)))], Finish],
        buffer := []\<rparr>)"
proof -
  have f: "flush 0 store_ab =
     (Inr (),
      store_ab\<lparr>called := {0}, buffering := 0,
        emitted := [Emit Add [(''a'', Val (JNum (JInt 1))), (''b'', Val (JNum (JInt 2)))], Finish],
        buffer := []\<rparr>)"
    by (simp add: flush_def store_ab_def Let_def isEmpty_def emit_data_def data_of_def obj_get_def)
  show ?thesis
    using flush_second_invocation_fails [of 0 store_ab] by (simp add: f)
qed

subsection \<open>Query\<close>

text \<open>
  Claim C8. For a key that is absent, \<^verbatim>\<open>get\<close> with one argument fails with
  \<^verbatim>\<open>NoSuchItem\<close> and \<^verbatim>\<open>get\<close> with two arguments returns the second argument,
  whatever it is (an explicit \<^verbatim>\<open>undefined\<close> or \<^verbatim>\<open>null\<close> included); for a key that
  is present, \<^verbatim>\<open>get\<close> returns the stored value with or without a default.
\<close>

theorem get_default_by_argument_count:
  "(\<not> has c k \<longrightarrow> get c k None = Inl (NoSuchItem k) \<and> (\<forall>d. get c k (Some d) = Inr d))
   \<and> (has c k \<longrightarrow> (\<exists>v. map_of (own (items c)) (property_key k) = Some v
                        \<and> (\<forall>dflt. get c k dflt = Inr v)))"
  by (auto simp: has_def has_own_def get_def split: option.splits)

theorem get_default_by_argument_count_witness:
  "\<not> has store_ab (KeyStr ''missing'')
   \<and> get store_ab (KeyStr ''missing'') None = Inl (NoSuchItem (KeyStr ''missing''))
   \<and> get store_ab (KeyStr ''missing'') (Some JNull) = Inr JNull
   \<and> get store_ab (KeyStr ''missing'') (Some JUndefined) = Inr JUndefined
   \<and> has store_ab (KeyStr ''a'')
   \<and> get store_ab (KeyStr ''a'') None = Inr (JNum (JInt 1))
   \<and> get store_ab (KeyStr ''a'') (Some JNull) = Inr (JNum (JInt 1))"
proof -
  have a: "\<not> has store_ab (KeyStr ''missing'')" and p: "has store_ab (KeyStr ''a'')"
    by (simp_all add: has_def has_own_def store_ab_def)
  have v: "map_of (own (items store_ab)) (property_key (KeyStr ''a'')) = Some (JNum (JInt 1))"
    by (simp add: store_ab_def)
  from get_default_by_argument_count [of store_ab "KeyStr ''missing''"] a
  have 1: "get store_ab (KeyStr ''missing'') None = Inl (NoSuchItem (KeyStr ''missing''))"
    "get store_ab (KeyStr ''missing'') (Some JNull) = Inr JNull"
    "get store_ab (KeyStr ''missing'') (Some JUndefined) = Inr JUndefined"
    by blast+
  from get_default_by_argument_count [of store_ab "KeyStr ''a''"] p v
  have 2: "get store_ab (KeyStr ''a'') None = Inr (JNum (JInt 1))"
    "get store_ab (KeyStr ''a'') (Some JNull) = Inr (JNum (JInt 1))"
    by auto
  from a p 1 2 show ?thesis by blast
qed

subsection \<open>Key validation\<close>

lemma u_isValidKey_key_of: "u_isValidKey v = (key_of v \<noteq> None)"
  by (cases v) (simp_all add: u_isValidKey_def)

lemma u_isValidKey_shape: "u_isValidKey k = ((\<exists>s. k = JStr s) \<or> (\<exists>n. k = JNum n))"
  by (cases k) (simp_all add: u_isValidKey_def)

lemma u_resolveItem_invalid:
  "\<not> u_isValidKey (resolved_key a v) \<Longrightarrow> u_resolveItem a v = Inl (InvalidKey (resolved_key a v))"
  by (auto simp: u_resolveItem_def resolved_key_def u_assertValidKey_def u_isValidKey_key_of)

lemma u_resolveItem_valid:
  "u_isValidKey (resolved_key a v) \<Longrightarrow>
     \<exists>k. key_of (resolved_key a v) = Some k \<and>
         u_resolveItem a v =
           Inr (k, if v \<noteq> JUndefined then v else if u_isValidKey a then JUndefined else a)"
  by (auto simp: u_resolveItem_def resolved_key_def u_assertValidKey_def u_isValidKey_key_of
      split: if_splits)

text \<open>
  Claim C7, as the code has it. Key validation is \<^verbatim>\<open>typeof key === 'number' ||
  typeof key === 'string'\<close>: every string and every number passes, non-integer numbers
  included. When the resolved key is neither a string nor a number, each of
  \<^verbatim>\<open>add\<close>, \<^verbatim>\<open>set\<close>, \<^verbatim>\<open>update\<close>, \<^verbatim>\<open>remove\<close>, \<^verbatim>\<open>unset\<close> and
  \<^verbatim>\<open>touch\<close> fails with \<^verbatim>\<open>InvalidKey\<close> and the state is the one before the call.
\<close>

theorem invalid_key_rejected_before_any_change:
  "(\<not> u_isValidKey (resolved_key a v) \<longrightarrow>
       add a v c = (Inl (InvalidKey (resolved_key a v)), c)
     \<and> set_c a v c = (Inl (InvalidKey (resolved_key a v)), c)
     \<and> update a v c = (Inl (InvalidKey (resolved_key a v)), c))
   \<and> (\<not> u_isValidKey (resolved_key a JUndefined) \<longrightarrow>
       remove a c = (Inl (InvalidKey (resolved_key a JUndefined)), c)
     \<and> unset a c = (Inl (InvalidKey (resolved_key a JUndefined)), c)
     \<and> touch a c = (Inl (InvalidKey (resolved_key a JUndefined)), c))
   \<and> (u_isValidKey k \<longleftrightarrow> (\<exists>s. k = JStr s) \<or> (\<exists>n. k = JNum n))
   \<and> (u_isValidKey k \<longrightarrow> (\<exists>key. u_assertValidKey k = Inr key \<and> key_value key = k))"
proof -
  have "u_isValidKey k \<longrightarrow> (\<exists>key. u_assertValidKey k = Inr key \<and> key_value key = k)"
    by (cases k) (simp_all add: u_isValidKey_def u_assertValidKey_def)
  then show ?thesis
    using u_isValidKey_shape [of k]
    by (simp add: add_def set_c_def update_def remove_def unset_def touch_def u_resolveItem_invalid)
qed

text \<open>
  Claim C7 as stated fails: \<^verbatim>\<open>1.5\<close> is neither a string nor an integer, and
  \<^verbatim>\<open>add(1.5, 'x')\<close> on a new collection succeeds and stores the item.
\<close>

theorem non_integer_key_accepted:
  "\<not> spec_string_or_integer (resolved_key (JNum (JOther ''1.5'')) (JStr ''x''))
   \<and> add (JNum (JOther ''1.5'')) (JStr ''x'') constructor =
       (Inr (),
        constructor\<lparr>buffer := [(''1.5'', Add)], buffering := 1,
          items := \<lparr>own = [(''1.5'', JStr ''x'')], prototype = ProtoObjectPrototype\<rparr>,
          size_c := 1, closures := 1, nextTick := [0]\<rparr>)"
  by (simp add: resolved_key_def add_def u_resolveItem_def u_assertValidKey_def has_def has_own_def
      obj_set_def u_touch_def bufferEvents_def constructor_def empty_object_def Let_def)

theorem invalid_key_rejected_witness:
  "\<not> u_isValidKey (resolved_key (JObj [(''name'', JStr ''n'')]) JUndefined)
   \<and> \<not> u_isValidKey (resolved_key JNull (JStr ''x''))
   \<and> add JNull (JStr ''x'') store_ab = (Inl (InvalidKey JNull), store_ab)
   \<and> remove (JObj [(''name'', JStr ''n'')]) store_ab = (Inl (InvalidKey JUndefined), store_ab)
   \<and> u_isValidKey (JNum (JOther ''1.5''))
   \<and> u_assertValidKey (JNum (JOther ''1.5'')) = Inr (KeyNum (JOther ''1.5''))"
proof -
  have r1: "resolved_key (JObj [(''name'', JStr ''n'')]) JUndefined = JUndefined"
    and r2: "resolved_key JNull (JStr ''x'') = JNull"
    by (simp_all add: resolved_key_def u_isValidKey_def getKey_def)
  have v: "u_isValidKey (JNum (JOther ''1.5''))" by (simp add: u_isValidKey_def)
  have n: "\<not> u_isValidKey JUndefined" "\<not> u_isValidKey JNull" by (simp_all add: u_isValidKey_def)
  from invalid_key_rejected_before_any_change
         [of JNull "JStr ''x''" store_ab "JNum (JOther ''1.5'')"] n v
  have 1: "add JNull (JStr ''x'') store_ab = (Inl (InvalidKey JNull), store_ab)"
    and 2: "\<exists>key. u_assertValidKey (JNum (JOther ''1.5'')) = Inr key
                 \<and> key_value key = JNum (JOther ''1.5'')"
    by (simp_all add: r2)
  from invalid_key_rejected_before_any_change
         [of "JObj [(''name'', JStr ''n'')]" JUndefined store_ab JNull] n
  have 3: "remove (JObj [(''name'', JStr ''n'')]) store_ab = (Inl (InvalidKey JUndefined), store_ab)"
    by (simp add: r1)
  have 4: "u_assertValidKey (JNum (JOther ''1.5'')) = Inr (KeyNum (JOther ''1.5''))"
    by (simp add: u_assertValidKey_def)
  from n v 1 3 4 show ?thesis by (simp add: r1 r2)
qed

subsection \<open>Mutations and indexes\<close>

lemma u_touch_frame:
  "items (u_touch a k c) = items c"
  "size_c (u_touch a k c) = size_c c"
  "indexes (u_touch a k c) = indexes c"
  "indexedItems (u_touch a k c) = indexedItems c"
  "index_calls (u_touch a k c) = index_calls c"
  "emitted (u_touch a k c) = emitted c"
  "called (u_touch a k c) = called c"
  by (simp_all add: u_touch_def bufferEvents_def Let_def split: action.split)

lemma u_touch_buffering:
  "buffering (u_touch a k c) = (if buffering c = 0 then 1 else buffering c)"
  by (simp add: u_touch_def bufferEvents_def Let_def split: action.split)

lemma u_touch_buffer_eq:
  "buffer (u_touch a k c) =
     (case a of
        Add \<Rightarrow> AList.update (property_key k)
                 (if map_of (buffer c) (property_key k) \<noteq> None then Update else Add) (buffer c)
      | Remove \<Rightarrow>
          (if map_of (buffer c) (property_key k) = Some Add
           then AList.delete (property_key k) (buffer c)
           else AList.update (property_key k) Remove (buffer c))
      | Update \<Rightarrow>
          (if map_of (buffer c) (property_key k) = None
           then AList.update (property_key k) Update (buffer c)
           else buffer c))"
  by (cases a) (auto simp: u_touch_def bufferEvents_def Let_def)

lemma u_touch_buffer:
  "map_of (buffer (u_touch a k c)) x =
     (if x = property_key k then
        (case a of
           Add \<Rightarrow> (if map_of (buffer c) x \<noteq> None then Some Update else Some Add)
         | Remove \<Rightarrow> (if map_of (buffer c) x = Some Add then None else Some Remove)
         | Update \<Rightarrow> (if map_of (buffer c) x = None then Some Update else map_of (buffer c) x))
      else map_of (buffer c) x)"
  by (cases a) (simp_all add: u_touch_buffer_eq AList.update_conv' AList.delete_conv')

lemma u_touch_distinct:
  "distinct (map fst (buffer c)) \<Longrightarrow> distinct (map fst (buffer (u_touch a k c)))"
  by (cases a) (simp_all add: u_touch_buffer_eq AList.distinct_update AList.distinct_delete)

lemma index_part_u_touch: "index_part (u_touch a k c) = index_part c"
  by (simp add: index_part_def u_touch_frame)

lemma index_part_clear_item: "index_part (clear_item c k) = index_part c"
  by (simp add: clear_item_def index_part_u_touch) (simp add: index_part_def)

lemma index_part_foldl_clear_item: "index_part (foldl clear_item c ks) = index_part c"
  by (induction ks arbitrary: c) (simp_all add: index_part_clear_item)

lemma index_part_add: "index_part (snd (add a v c)) = index_part c"
  by (simp add: add_def index_part_u_touch split: sum.split prod.split)
     (simp add: index_part_def)

lemma index_part_remove: "index_part (snd (remove a c)) = index_part c"
  by (simp add: remove_def index_part_u_touch split: sum.split prod.split)
     (simp add: index_part_def)

lemma index_part_set_c: "index_part (snd (set_c a v c)) = index_part c"
  by (simp add: set_c_def Let_def index_part_u_touch split: sum.split prod.split)
     (simp add: index_part_def)

lemma index_part_update: "index_part (snd (update a v c)) = index_part c"
  by (simp add: update_def index_part_u_touch split: sum.split prod.split)
     (simp add: index_part_def)

lemma index_part_unset: "index_part (snd (unset a c)) = index_part c"
  by (simp add: unset_def index_part_u_touch split: sum.split prod.split)
     (simp add: index_part_def)

lemma index_part_touch: "index_part (snd (touch a c)) = index_part c"
  by (simp add: touch_def Let_def index_part_u_touch split: sum.split prod.split)

lemma index_part_clear: "index_part (snd (clear c)) = index_part c"
  by (simp add: clear_def index_part_foldl_clear_item)

text \<open>
  Claim C6, as the code has it. No mutation operation calls into an index: \<^verbatim>\<open>add\<close>,
  \<^verbatim>\<open>set\<close>, \<^verbatim>\<open>update\<close>, \<^verbatim>\<open>remove\<close>, \<^verbatim>\<open>unset\<close>, \<^verbatim>\<open>touch\<close>,
  \<^verbatim>\<open>clear\<close> and \<^verbatim>\<open>_touch\<close> leave the index registry, the exposed item views and
  the calls made into indexes as they were. The collection calls into an index only in
  \<^verbatim>\<open>createIndex\<close> (\<^verbatim>\<open>_attachCollection\<close>) and \<^verbatim>\<open>deleteIndex\<close>
  (\<^verbatim>\<open>_detachCollection\<close>).
\<close>

theorem mutations_call_no_index:
  "index_part (snd (add a v c)) = index_part c
   \<and> index_part (snd (set_c a v c)) = index_part c
   \<and> index_part (snd (update a v c)) = index_part c
   \<and> index_part (snd (remove a c)) = index_part c
   \<and> index_part (snd (unset a c)) = index_part c
   \<and> index_part (snd (touch a c)) = index_part c
   \<and> index_part (snd (clear c)) = index_part c
   \<and> index_part (u_touch act key c) = index_part c
   \<and> index_calls (snd (createIndex name index c)) =
       (if map_of (indexes c) name \<noteq> None then index_calls c
        else index_calls c @ [(name, AttachCollection)])
   \<and> index_calls (snd (deleteIndex name c)) =
       (if map_of (indexes c) name = None then index_calls c
        else index_calls c @ [(name, DetachCollection)])"
  by (simp add: createIndex_def deleteIndex_def index_part_add index_part_set_c index_part_update index_part_remove
      index_part_unset index_part_touch index_part_clear index_part_u_touch)

text \<open>
  Claim C6 as stated fails: with the index \<^verbatim>\<open>byId\<close> attached to a new collection,
  \<^verbatim>\<open>add('a', 1)\<close> succeeds and is merged into the pending log, and the only call the
  index has received is its attachment.
\<close>

theorem add_delivers_no_notification:
  "createIndex ''byId'' [] constructor = (Inr (), store_indexed)
   \<and> map_of (indexes store_indexed) ''byId'' = Some []
   \<and> add (JStr ''a'') (JNum (JInt 1)) store_indexed =
       (Inr (),
        store_indexed\<lparr>buffer := [(''a'', Add)], buffering := 1,
          items := \<lparr>own = [(''a'', JNum (JInt 1))], prototype = ProtoObjectPrototype\<rparr>,
          size_c := 1, closures := 1, nextTick := [0]\<rparr>)
   \<and> index_calls (snd (add (JStr ''a'') (JNum (JInt 1)) store_indexed))
       = [(''byId'', AttachCollection)]
   \<and> (''byId'', Notify Add (KeyStr ''a'') (JNum (JInt 1)))
       \<notin> set (index_calls (snd (add (JStr ''a'') (JNum (JInt 1)) store_indexed)))"
  by (simp add: createIndex_def store_indexed_def add_def u_resolveItem_def u_assertValidKey_def
      has_def has_own_def obj_set_def u_touch_def bufferEvents_def constructor_def
      empty_object_def Let_def)

theorem mutations_call_no_index_witness:
  "index_part (snd (add (JStr ''a'') (JNum (JInt 1)) store_indexed))
     = ([(''byId'', [])], [(''byId'', [])], [(''byId'', AttachCollection)])"
  using mutations_call_no_index [of "JStr ''a''" "JNum (JInt 1)" store_indexed]
  by (simp add: index_part_def store_indexed_def constructor_def)

subsection \<open>The item object and the pending log under mutation\<close>

lemma reaches_proto_accessor_name: "reaches_proto_accessor p x \<Longrightarrow> x = ''__proto__''"
  by (cases p) simp_all

lemma has_own_obj_delete: "has_own (obj_delete ob k) x = (x \<noteq> k \<and> has_own ob x)"
  by (auto simp: has_own_def obj_delete_def AList.delete_conv')

lemma prototype_obj_delete: "prototype (obj_delete ob k) = prototype ob"
  by (simp add: obj_delete_def)

lemma obj_set_ownable:
  "ownable ob k \<Longrightarrow> obj_set ob k v = ob\<lparr>own := AList.update k v (own ob)\<rparr>"
  by (auto simp: obj_set_def ownable_def)

lemma obj_set_not_ownable:
  "\<not> ownable ob k \<Longrightarrow> obj_set ob k v = proto_setter ob v"
  by (auto simp: obj_set_def ownable_def)

lemma own_proto_setter: "own (proto_setter ob v) = own ob"
  by (cases v) simp_all

lemma has_own_obj_set:
  "has_own (obj_set ob k v) x = ((x = k \<and> ownable ob k) \<or> has_own ob x)"
proof (cases "ownable ob k")
  case True
  then show ?thesis
    by (auto simp: obj_set_ownable has_own_def AList.update_conv')
next
  case False
  then show ?thesis
    by (simp add: obj_set_not_ownable has_own_def own_proto_setter)
qed

lemma map_of_own_obj_set:
  "ownable ob k \<Longrightarrow> map_of (own (obj_set ob k v)) x = (if x = k then Some v else map_of (own ob) x)"
  by (simp add: obj_set_ownable AList.update_conv')

lemma reaches_obj_set:
  "\<not> reaches_proto_accessor (prototype ob) x \<Longrightarrow>
     \<not> reaches_proto_accessor (prototype (obj_set ob k v)) x"
proof (cases "ownable ob k")
  case True
  assume "\<not> reaches_proto_accessor (prototype ob) x"
  with True show ?thesis by (simp add: obj_set_ownable)
next
  case False
  assume n: "\<not> reaches_proto_accessor (prototype ob) x"
  from False have "reaches_proto_accessor (prototype ob) k" by (simp add: ownable_def)
  then have k: "k = ''__proto__''" and r: "reaches_proto_accessor (prototype ob) ''__proto__''"
    using reaches_proto_accessor_name by blast+
  from n r have "x \<noteq> ''__proto__''" by auto
  then show ?thesis using reaches_proto_accessor_name by blast
qed

lemma distinct_own_keys_obj_set:
  "distinct (own_keys ob) \<Longrightarrow> distinct (own_keys (obj_set ob k v))"
  by (cases "ownable ob k")
     (simp_all add: obj_set_ownable obj_set_not_ownable own_proto_setter own_keys_def
        AList.distinct_update)

lemma distinct_own_keys_obj_delete:
  "distinct (own_keys ob) \<Longrightarrow> distinct (own_keys (obj_delete ob k))"
  by (simp add: obj_delete_def own_keys_def AList.distinct_delete)

lemma proto_name_obj_set:
  assumes "has_own ob ''__proto__'' \<longrightarrow> \<not> reaches_proto_accessor (prototype ob) ''__proto__''"
  shows "has_own (obj_set ob k v) ''__proto__'' \<longrightarrow>
           \<not> reaches_proto_accessor (prototype (obj_set ob k v)) ''__proto__''"
proof (cases "ownable ob k")
  case True
  with assms show ?thesis
    by (auto simp: obj_set_ownable has_own_def ownable_def AList.update_conv'
        split: if_splits dest: reaches_proto_accessor_name)
next
  case False
  then have r: "reaches_proto_accessor (prototype ob) k" and nk: "\<not> has_own ob k"
    by (simp_all add: ownable_def)
  from r have k: "k = ''__proto__''" by (rule reaches_proto_accessor_name)
  have "\<not> has_own (obj_set ob k v) ''__proto__''"
    using nk k False by (simp add: has_own_obj_set)
  then show ?thesis by simp
qed

lemma wf_items_obj_set: "wf_items ob \<Longrightarrow> wf_items (obj_set ob k v)"
  using proto_name_obj_set [of ob k v]
  by (simp add: wf_items_def distinct_own_keys_obj_set)

lemma wf_items_obj_delete: "wf_items ob \<Longrightarrow> wf_items (obj_delete ob k)"
  by (simp add: wf_items_def has_own_obj_delete prototype_obj_delete distinct_own_keys_obj_delete)

lemma wf_items_empty: "wf_items empty_object"
  by (simp add: wf_items_def empty_object_def has_own_def own_keys_def)

lemma has_own_keys: "has_own ob x = (x \<in> set (own_keys ob))"
  by (simp add: has_own_def own_keys_def map_of_eq_None_iff)

lemma kept_add:
  assumes "log_of_kept c x" and "\<not> has_own (items c) (property_key key)"
  shows "log_of_kept (u_touch Add key (c\<lparr>items := obj_set (items c) (property_key key) v, size_c := n\<rparr>)) x"
proof -
  from assms(1) have p: "\<not> reaches_proto_accessor (prototype (items c)) x"
    by (simp add: log_of_kept_def)
  show ?thesis
  proof (cases "x = property_key key")
    case True
    with p have "ownable (items c) (property_key key)" by (simp add: ownable_def)
    with assms True show ?thesis
      by (simp add: log_of_kept_def u_touch_frame u_touch_buffer has_own_obj_set reaches_obj_set)
  next
    case False
    with assms show ?thesis
      by (simp add: log_of_kept_def u_touch_frame u_touch_buffer has_own_obj_set reaches_obj_set)
  qed
qed

lemma kept_remove:
  assumes "log_of_kept c x"
  shows "log_of_kept (u_touch Remove key (c\<lparr>items := obj_delete (items c) (property_key key), size_c := n\<rparr>)) x"
  using assms
  by (auto simp: log_of_kept_def u_touch_frame u_touch_buffer has_own_obj_delete prototype_obj_delete
      split: if_splits)

lemma kept_update:
  assumes "log_of_kept c x" and "has_own (items c) (property_key key)"
  shows "log_of_kept (u_touch Update key (c\<lparr>items := obj_set (items c) (property_key key) v\<rparr>)) x"
  using assms
  by (auto simp: log_of_kept_def u_touch_frame u_touch_buffer has_own_obj_set reaches_obj_set
      ownable_def split: if_splits)

lemma kept_touch:
  assumes "log_of_kept c x" and "has_own (items c) (property_key key)"
  shows "log_of_kept (u_touch Update key c) x"
  using assms
  by (auto simp: log_of_kept_def u_touch_frame u_touch_buffer split: if_splits)

lemma new_add:
  assumes "log_of_new c x" and "\<not> has_own (items c) (property_key key)"
  shows "log_of_new (u_touch Add key (c\<lparr>items := obj_set (items c) (property_key key) v, size_c := n\<rparr>)) x"
proof -
  from assms(1) have p: "\<not> reaches_proto_accessor (prototype (items c)) x"
    by (simp add: log_of_new_def)
  show ?thesis
  proof (cases "x = property_key key")
    case True
    with p have "ownable (items c) (property_key key)" by (simp add: ownable_def)
    with assms True show ?thesis
      by (simp add: log_of_new_def u_touch_frame u_touch_buffer has_own_obj_set reaches_obj_set)
  next
    case False
    with assms show ?thesis
      by (simp add: log_of_new_def u_touch_frame u_touch_buffer has_own_obj_set reaches_obj_set)
  qed
qed

lemma new_remove:
  assumes "log_of_new c x" and "has_own (items c) (property_key key)"
  shows "log_of_new (u_touch Remove key (c\<lparr>items := obj_delete (items c) (property_key key), size_c := n\<rparr>)) x"
  using assms
  by (auto simp: log_of_new_def u_touch_frame u_touch_buffer has_own_obj_delete prototype_obj_delete
      split: if_splits)

lemma new_update:
  assumes "log_of_new c x" and "has_own (items c) (property_key key)"
  shows "log_of_new (u_touch Update key (c\<lparr>items := obj_set (items c) (property_key key) v\<rparr>)) x"
  using assms
  by (auto simp: log_of_new_def u_touch_frame u_touch_buffer has_own_obj_set reaches_obj_set
      ownable_def split: if_splits)

lemma new_touch:
  assumes "log_of_new c x" and "has_own (items c) (property_key key)"
  shows "log_of_new (u_touch Update key c) x"
  using assms
  by (auto simp: log_of_new_def u_touch_frame u_touch_buffer split: if_splits)

subsection \<open>clear over the own keys\<close>

text \<open>Where \<^verbatim>\<open>forEach\<close> walks the own keys, \<^verbatim>\<open>clear\<close> removes every item and
  records each key as \<^verbatim>\<open>remove\<close> does.\<close>

lemma clear_item_frame:
  "own (items (clear_item c k)) = AList.delete (property_key k) (own (items c))"
  "prototype (items (clear_item c k)) = prototype (items c)"
  "size_c (clear_item c k) = size_c c - 1"
  "map_of (buffer (clear_item c k)) x =
     (if x = property_key k
      then (if map_of (buffer c) x = Some Add then None else Some Remove)
      else map_of (buffer c) x)"
  by (simp_all add: clear_item_def u_touch_frame u_touch_buffer obj_delete_def)

lemma foldl_clear_item_own:
  "own (items (foldl clear_item c (map KeyStr ks))) =
     filter (\<lambda>p. fst p \<notin> set ks) (own (items c))"
proof (induction ks arbitrary: c)
  case Nil
  then show ?case by simp
next
  case (Cons k ks)
  show ?case
    by (simp add: Cons.IH clear_item_frame AList.delete_eq) (rule filter_cong, auto)
qed

lemma foldl_clear_item_size:
  "size_c (foldl clear_item c ks) = size_c c - int (length ks)"
  by (induction ks arbitrary: c) (simp_all add: clear_item_frame)

lemma foldl_clear_item_buffer:
  "distinct ks \<Longrightarrow>
     map_of (buffer (foldl clear_item c (map KeyStr ks))) x =
       (if x \<in> set ks
        then (if map_of (buffer c) x = Some Add then None else Some Remove)
        else map_of (buffer c) x)"
proof (induction ks arbitrary: c)
  case Nil
  then show ?case by simp
next
  case (Cons k ks)
  from Cons.prems have d: "distinct ks" and nk: "k \<notin> set ks" by simp_all
  show ?case
    using nk by (auto simp: Cons.IH [OF d] clear_item_frame)
qed

lemma clear_removes_every_item:
  assumes "isLength (obj_get (items c) ''length'') = None"
    and "distinct (own_keys (items c))"
  shows "own (items (snd (clear c))) = []"
    and "size_c (snd (clear c)) = size_c c - int (length (own_keys (items c)))"
    and "map_of (buffer (snd (clear c))) x =
           (if x \<in> set (own_keys (items c))
            then (if map_of (buffer c) x = Some Add then None else Some Remove)
            else map_of (buffer c) x)"
proof -
  have k: "snd (clear c) = foldl clear_item c (map KeyStr (own_keys (items c)))"
    by (simp add: clear_def forEach_keys_def assms(1))
  show "own (items (snd (clear c))) = []"
    unfolding k foldl_clear_item_own by (simp add: own_keys_def)
  show "size_c (snd (clear c)) = size_c c - int (length (own_keys (items c)))"
    by (simp add: k foldl_clear_item_size)
  show "map_of (buffer (snd (clear c))) x =
           (if x \<in> set (own_keys (items c))
            then (if map_of (buffer c) x = Some Add then None else Some Remove)
            else map_of (buffer c) x)"
    unfolding k by (rule foldl_clear_item_buffer [OF assms(2)])
qed

lemma prototype_foldl_clear_item:
  "prototype (items (foldl clear_item c ks)) = prototype (items c)"
  by (induction ks arbitrary: c) (simp_all add: clear_item_frame)

subsection \<open>Sequences of operations\<close>

lemma kept_clear_items: "log_of_kept c x \<Longrightarrow> log_of_kept (foldl clear_item c ks) x"
  by (induction ks arbitrary: c) (simp_all add: clear_item_def kept_remove)

lemma log_of_kept_apply_op: "log_of_kept c x \<Longrightarrow> log_of_kept (apply_op c op) x"
proof (cases op)
  case (OpAdd a v)
  assume "log_of_kept c x"
  then show ?thesis
    by (auto simp: OpAdd add_def has_def kept_add split: sum.splits prod.splits)
next
  case (OpSet a v)
  assume "log_of_kept c x"
  then show ?thesis
    by (auto simp: OpSet set_c_def has_def Let_def kept_add kept_update split: sum.splits prod.splits)
next
  case (OpUpdate a v)
  assume "log_of_kept c x"
  then show ?thesis
    by (auto simp: OpUpdate update_def has_def kept_update split: sum.splits prod.splits)
next
  case (OpRemove a)
  assume "log_of_kept c x"
  then show ?thesis
    by (auto simp: OpRemove remove_def has_def kept_remove split: sum.splits prod.splits)
next
  case (OpUnset a)
  assume "log_of_kept c x"
  then show ?thesis
    by (auto simp: OpUnset unset_def has_def kept_remove split: sum.splits prod.splits)
next
  case (OpTouch a)
  assume "log_of_kept c x"
  then show ?thesis
    by (auto simp: OpTouch touch_def has_def Let_def kept_touch split: sum.splits prod.splits)
next
  case OpClear
  assume "log_of_kept c x"
  then show ?thesis by (simp add: OpClear clear_def kept_clear_items)
qed

lemma log_of_kept_exec: "log_of_kept c x \<Longrightarrow> log_of_kept (exec c ops) x"
  unfolding exec_def by (induction ops arbitrary: c) (simp_all add: log_of_kept_apply_op)

lemma log_of_new_apply_op:
  "log_of_new c x \<Longrightarrow> op \<noteq> OpClear \<Longrightarrow> log_of_new (apply_op c op) x"
proof (cases op)
  case (OpAdd a v)
  assume "log_of_new c x"
  then show ?thesis
    by (auto simp: OpAdd add_def has_def new_add split: sum.splits prod.splits)
next
  case (OpSet a v)
  assume "log_of_new c x"
  then show ?thesis
    by (auto simp: OpSet set_c_def has_def Let_def new_add new_update split: sum.splits prod.splits)
next
  case (OpUpdate a v)
  assume "log_of_new c x"
  then show ?thesis
    by (auto simp: OpUpdate update_def has_def new_update split: sum.splits prod.splits)
next
  case (OpRemove a)
  assume "log_of_new c x"
  then show ?thesis
    by (auto simp: OpRemove remove_def has_def new_remove split: sum.splits prod.splits)
next
  case (OpUnset a)
  assume "log_of_new c x"
  then show ?thesis
    by (auto simp: OpUnset unset_def has_def new_remove split: sum.splits prod.splits)
next
  case (OpTouch a)
  assume "log_of_new c x"
  then show ?thesis
    by (auto simp: OpTouch touch_def has_def Let_def new_touch split: sum.splits prod.splits)
next
  case OpClear
  assume "op \<noteq> OpClear"
  with OpClear show ?thesis by simp
qed

lemma distinct_log_u_touch:
  "distinct_log c \<Longrightarrow> distinct_log (u_touch act key c)"
  unfolding distinct_log_def by (rule u_touch_distinct)

lemma distinct_log_items [simp]:
  "distinct_log (c\<lparr>items := it\<rparr>) = distinct_log c"
  "distinct_log (c\<lparr>size_c := n\<rparr>) = distinct_log c"
  by (simp_all add: distinct_log_def)

lemma distinct_log_clear_items: "distinct_log c \<Longrightarrow> distinct_log (foldl clear_item c ks)"
  by (induction ks arbitrary: c) (simp_all add: clear_item_def distinct_log_u_touch)

lemma distinct_log_apply_op: "distinct_log c \<Longrightarrow> distinct_log (apply_op c op)"
  by (cases op)
     (auto simp: add_def set_c_def update_def remove_def unset_def touch_def clear_def Let_def
        distinct_log_u_touch distinct_log_clear_items split: sum.splits prod.splits)

lemma distinct_log_exec: "distinct_log c \<Longrightarrow> distinct_log (exec c ops)"
  unfolding exec_def by (induction ops arbitrary: c) (simp_all add: distinct_log_apply_op)

lemma wf_items_clear_items: "wf_items (items c) \<Longrightarrow> wf_items (items (foldl clear_item c ks))"
proof (induction ks arbitrary: c)
  case Nil
  then show ?case by simp
next
  case (Cons k ks)
  have "wf_items (items (clear_item c k))"
    using Cons.prems by (simp add: clear_item_def u_touch_frame wf_items_obj_delete)
  then show ?case by (simp add: Cons.IH)
qed

lemma wf_items_apply_op: "wf_items (items c) \<Longrightarrow> wf_items (items (apply_op c op))"
  by (cases op)
     (auto simp: add_def set_c_def update_def remove_def unset_def touch_def clear_def Let_def
        u_touch_frame wf_items_obj_set wf_items_obj_delete wf_items_clear_items
        split: sum.splits prod.splits)

lemma wf_items_exec: "wf_items (items c) \<Longrightarrow> wf_items (items (exec c ops))"
  unfolding exec_def by (induction ops arbitrary: c) (simp_all add: wf_items_apply_op)

lemma wf_items_constructor: "wf_items (items constructor)"
  by (simp add: constructor_def wf_items_empty)

lemma items_flush: "items (snd (flush h c)) = items c"
  by (simp add: flush_def Let_def)

lemma distinct_log_flush: "distinct_log c \<Longrightarrow> distinct_log (snd (flush h c))"
  by (simp add: flush_def Let_def distinct_log_def)

lemma distinct_log_constructor: "distinct_log constructor"
  by (simp add: distinct_log_def constructor_def)

lemma new_clear:
  assumes "log_of_new c x" and "wf_items (items c)"
    and "isLength (obj_get (items c) ''length'') = None"
  shows "log_of_new (snd (clear c)) x"
proof -
  from assms(2) have d: "distinct (own_keys (items c))" by (simp add: wf_items_def)
  note r = clear_removes_every_item [OF assms(3) d]
  have p: "prototype (items (snd (clear c))) = prototype (items c)"
    by (simp add: clear_def prototype_foldl_clear_item)
  have h: "x \<notin> set (own_keys (items (snd (clear c))))" by (simp add: own_keys_def r(1))
  from assms(1) show ?thesis
    by (auto simp: log_of_new_def p h r(3) has_own_keys split: if_splits)
qed

lemma log_of_new_apply_op_clear:
  assumes "log_of_new c x" and "wf_items (items c)"
    and "op = OpClear \<longrightarrow> isLength (obj_get (items c) ''length'') = None"
  shows "log_of_new (apply_op c op) x"
proof (cases "op = OpClear")
  case True
  with assms show ?thesis by (simp add: new_clear)
next
  case False
  with assms(1) show ?thesis by (rule log_of_new_apply_op)
qed

lemma log_of_new_run:
  "log_of_new c x \<Longrightarrow> wf_items (items c) \<Longrightarrow> own_key_clears c ops \<Longrightarrow>
     log_of_new (exec c ops) x"
  unfolding exec_def
  by (induction ops arbitrary: c) (simp_all add: log_of_new_apply_op_clear wf_items_apply_op)

lemma plain_run_own_key_clears: "plain_run c ops \<Longrightarrow> own_key_clears c ops"
  by (induction ops arbitrary: c) (simp_all add: plain_op_def)

lemma has_own_clear_items:
  "has_own (items (foldl clear_item c ks)) x \<Longrightarrow> has_own (items c) x"
proof (induction ks arbitrary: c)
  case Nil
  then show ?case by simp
next
  case (Cons k ks)
  from Cons.IH [of "clear_item c k"] Cons.prems
  have "has_own (items (clear_item c k)) x" by simp
  then show ?case
    by (simp add: has_own_def clear_item_frame AList.delete_conv' split: if_splits)
qed

lemma created_by_op:
  assumes "\<not> has_own (items c) x" and "has_own (items (apply_op c op)) x"
  shows "op \<noteq> OpClear \<and> \<not> reaches_proto_accessor (prototype (items c)) x"
proof (cases op)
  case (OpAdd a v)
  with assms show ?thesis
    by (auto simp: add_def has_def u_touch_frame has_own_obj_set ownable_def
        split: sum.splits prod.splits if_splits)
next
  case (OpSet a v)
  with assms show ?thesis
    by (auto simp: set_c_def has_def Let_def u_touch_frame has_own_obj_set ownable_def
        split: sum.splits prod.splits if_splits)
next
  case (OpUpdate a v)
  with assms show ?thesis
    by (auto simp: update_def has_def u_touch_frame has_own_obj_set ownable_def
        split: sum.splits prod.splits if_splits)
next
  case (OpRemove a)
  with assms show ?thesis
    by (auto simp: remove_def has_def u_touch_frame has_own_obj_delete
        split: sum.splits prod.splits if_splits)
next
  case (OpUnset a)
  with assms show ?thesis
    by (auto simp: unset_def has_def u_touch_frame has_own_obj_delete
        split: sum.splits prod.splits if_splits)
next
  case (OpTouch a)
  with assms show ?thesis
    by (auto simp: touch_def has_def Let_def u_touch_frame
        split: sum.splits prod.splits if_splits)
next
  case OpClear
  with assms show ?thesis
    by (auto simp: clear_def dest: has_own_clear_items)
qed

subsection \<open>Coalescing\<close>

lemma remove_present:
  "u_resolveItem a JUndefined = Inr (k, v) \<Longrightarrow> has_own (items c) (property_key k) \<Longrightarrow>
     remove a c =
       (Inr (), u_touch Remove k
                  (c\<lparr>items := obj_delete (items c) (property_key k), size_c := size_c c - 1\<rparr>))"
  by (simp add: remove_def has_def)

lemma add_absent:
  "u_resolveItem b w = Inr (k, v) \<Longrightarrow> \<not> has_own (items c) (property_key k) \<Longrightarrow>
     add b w c =
       (Inr (), u_touch Add k
                  (c\<lparr>items := obj_set (items c) (property_key k) v, size_c := size_c c + 1\<rparr>))"
  by (simp add: add_def has_def)

lemma set_c_absent:
  "u_resolveItem b w = Inr (k, v) \<Longrightarrow> \<not> has_own (items c) (property_key k) \<Longrightarrow>
     set_c b w c = add b w c"
  by (simp add: add_def set_c_def has_def Let_def)

lemma removed_state:
  assumes "c1 = u_touch Remove k (c\<lparr>items := obj_delete (items c) (property_key k), size_c := n\<rparr>)"
  shows "\<not> has_own (items c1) (property_key k)"
    and "prototype (items c1) = prototype (items c)"
    and "map_of (buffer c1) (property_key k) =
           (if map_of (buffer c) (property_key k) = Some Add then None else Some Remove)"
  by (simp_all add: assms u_touch_frame u_touch_buffer has_own_obj_delete prototype_obj_delete)

lemma added_state:
  assumes "c2 = u_touch Add k (c1\<lparr>items := obj_set (items c1) (property_key k) v, size_c := n\<rparr>)"
  shows "map_of (buffer c2) (property_key k) =
           (if map_of (buffer c1) (property_key k) \<noteq> None then Some Update else Some Add)"
    and "\<not> reaches_proto_accessor (prototype (items c1)) (property_key k) \<Longrightarrow>
           map_of (own (items c2)) (property_key k) = Some v"
  by (simp_all add: assms u_touch_frame u_touch_buffer map_of_own_obj_set ownable_def)

lemma boundary_kept:
  "buffer c0 = [] \<Longrightarrow> wf_items (items c0) \<Longrightarrow> has_own (items c0) x \<Longrightarrow> log_of_kept c0 x"
  by (auto simp: log_of_kept_def wf_items_def dest: reaches_proto_accessor_name)

lemma boundary_new:
  "buffer c0 = [] \<Longrightarrow> \<not> reaches_proto_accessor (prototype (items c0)) x \<Longrightarrow>
     \<not> has_own (items c0) x \<Longrightarrow> log_of_new c0 x"
  by (simp add: log_of_new_def)

lemma run_of_new:
  assumes "buffer c0 = []" and "wf_items (items c0)" and "\<not> has_own (items c0) x"
    and "(\<exists>op. ops = [op]) \<and> has_own (items (exec c0 ops)) x
         \<or> own_key_clears c0 ops \<and> \<not> reaches_proto_accessor (prototype (items c0)) x"
  shows "log_of_new (exec c0 ops) x"
proof (cases "(\<exists>op. ops = [op]) \<and> has_own (items (exec c0 ops)) x")
  case True
  then obtain op where op: "ops = [op]" and h: "has_own (items (apply_op c0 op)) x"
    by (auto simp: exec_def)
  from created_by_op [OF assms(3) h]
  have nc: "op \<noteq> OpClear" and p: "\<not> reaches_proto_accessor (prototype (items c0)) x"
    by simp_all
  from log_of_new_apply_op [OF boundary_new [OF assms(1) p assms(3)] nc]
  show ?thesis by (simp add: op exec_def)
next
  case False
  with assms(4) have "own_key_clears c0 ops"
    and p: "\<not> reaches_proto_accessor (prototype (items c0)) x"
    by blast+
  with log_of_new_run [OF boundary_new [OF assms(1) p assms(3)] assms(2)]
  show ?thesis by blast
qed

lemma data_of_value:
  "distinct_log c \<Longrightarrow> map_of (buffer c) x = Some a \<Longrightarrow> map_of (own (items c)) x = Some v \<Longrightarrow>
     map_of (data_of c a) x = Some (Val v)"
  by (simp add: map_of_data_of distinct_log_def obj_get_def)

lemma data_of_absent:
  "distinct_log c \<Longrightarrow> map_of (buffer c) x \<noteq> Some a \<Longrightarrow> x \<notin> fst ` set (data_of c a)"
  by (auto simp: keys_data_of distinct_log_def)

lemma data_of_absent_None:
  "map_of (buffer c) x = None \<Longrightarrow> x \<notin> fst ` set (data_of c a)"
  by (auto simp: keys_data_of map_of_eq_None_iff intro: rev_image_eqI)

lemma remove_then_add_states:
  assumes present: "has_own (items c) x"
    and rm: "u_resolveItem a JUndefined = Inr (k1, v1)" "property_key k1 = x"
    and ad: "u_resolveItem b w = Inr (k2, v2)" "property_key k2 = x"
    and c1: "c1 = snd (remove a c)" and c2: "c2 = snd (add b w c1)"
  shows "fst (remove a c) = Inr ()" and "fst (add b w c1) = Inr ()"
    and "set_c b w c1 = add b w c1"
    and "map_of (buffer c2) x = (if map_of (buffer c) x = Some Add then Some Add else Some Update)"
    and "c1 = apply_op c (OpRemove a)" and "c2 = apply_op c1 (OpAdd b w)"
    and "\<not> reaches_proto_accessor (prototype (items c)) x \<Longrightarrow>
           map_of (own (items c2)) x = Some v2"
proof -
  define n where "n = size_c c - 1"
  have r: "remove a c =
      (Inr (), u_touch Remove k1 (c\<lparr>items := obj_delete (items c) (property_key k1), size_c := n\<rparr>))"
    using remove_present [OF rm(1)] present rm(2) by (simp add: n_def)
  then have c1': "c1 = u_touch Remove k1 (c\<lparr>items := obj_delete (items c) (property_key k1), size_c := n\<rparr>)"
    by (simp add: c1)
  note s1 = removed_state [OF c1']
  from s1(1) have absent: "\<not> has_own (items c1) (property_key k2)" by (simp add: rm(2) ad(2))
  define m where "m = size_c c1 + 1"
  have d: "add b w c1 =
      (Inr (), u_touch Add k2 (c1\<lparr>items := obj_set (items c1) (property_key k2) v2, size_c := m\<rparr>))"
    using add_absent [OF ad(1) absent] by (simp add: m_def)
  then have c2': "c2 = u_touch Add k2 (c1\<lparr>items := obj_set (items c1) (property_key k2) v2, size_c := m\<rparr>)"
    by (simp add: c2)
  note s2 = added_state [OF c2']
  show "fst (remove a c) = Inr ()" by (simp add: r)
  show "fst (add b w c1) = Inr ()" by (simp add: d)
  show "set_c b w c1 = add b w c1" by (rule set_c_absent [OF ad(1) absent])
  show "map_of (buffer c2) x = (if map_of (buffer c) x = Some Add then Some Add else Some Update)"
    using s2(1) s1(3) by (simp add: ad(2) rm(2))
  show "c1 = apply_op c (OpRemove a)" by (simp add: c1)
  show "c2 = apply_op c1 (OpAdd b w)" by (simp add: c2)
  show "map_of (own (items c2)) x = Some v2"
    if "\<not> reaches_proto_accessor (prototype (items c)) x"
    using s2(2) s1(2) that by (simp add: ad(2))
qed

lemma flush_outer_update_event:
  assumes "distinct_log c" and "map_of (buffer c) x = Some Update"
    and "map_of (own (items c)) x = Some v" and "h \<notin> called c" and "buffering c = 1"
  shows "emitted (snd (flush h c)) =
           emitted c @ emit_data c Add @ emit_data c Remove @ [Emit Update (data_of c Update), Finish]"
    and "map_of (data_of c Update) x = Some (Val v)"
    and "x \<notin> fst ` set (data_of c Add)" and "x \<notin> fst ` set (data_of c Remove)"
proof -
  show v: "map_of (data_of c Update) x = Some (Val v)"
    by (rule data_of_value [OF assms(1,2,3)])
  then have ne: "data_of c Update \<noteq> []" by auto
  from assms(2) have "buffer c \<noteq> []" by auto
  from flush_outer_nonempty [OF assms(4,5) this] ne
  show "emitted (snd (flush h c)) =
           emitted c @ emit_data c Add @ emit_data c Remove @ [Emit Update (data_of c Update), Finish]"
    by (simp add: emit_data_def isEmpty_def)
  show "x \<notin> fst ` set (data_of c Add)"
    by (rule data_of_absent [OF assms(1)]) (simp add: assms(2))
  show "x \<notin> fst ` set (data_of c Remove)"
    by (rule data_of_absent [OF assms(1)]) (simp add: assms(2))
qed

text \<open>
  Where remove followed by re-add coalesces. Take any store \<open>c\<close> in which the
  property name \<open>x\<close> is present.
  \<^verbatim>\<open>remove\<close> of that key succeeds, and so does the \<^verbatim>\<open>add\<close> that follows
  (\<^verbatim>\<open>set\<close> does the same as \<^verbatim>\<open>add\<close> there); afterwards the pending log records
  \<open>x\<close> as Added if it recorded it as Added before, and as Updated otherwise.
  If \<open>c\<close> is the store reached by any sequence of mutation operations from a flush
  boundary \<open>c0\<close> (empty log) at which \<open>x\<close> was present, the entry is Updated, and the
  invocation that closes the outermost scope emits one \<^verbatim>\<open>update\<close> event, which
  carries \<open>x\<close> with the re-added value, while neither the \<^verbatim>\<open>add\<close> nor the
  \<^verbatim>\<open>remove\<close> payload names \<open>x\<close>. If \<open>x\<close> was absent at the boundary, the entry
  is Added: when a single operation since the boundary created \<open>x\<close>, and also after any
  run in which \<^verbatim>\<open>clear\<close> walks the own keys, when assigning \<open>x\<close> on the item object
  creates an own property.
\<close>

lemma remove_then_readd_coalesces:
  assumes present: "has_own (items c) x"
    and rm: "u_resolveItem a JUndefined = Inr (k1, v1)" "property_key k1 = x"
    and ad: "u_resolveItem b w = Inr (k2, v2)" "property_key k2 = x"
    and c1: "c1 = snd (remove a c)" and c2: "c2 = snd (add b w c1)"
  shows "fst (remove a c) = Inr () \<and> fst (add b w c1) = Inr () \<and> set_c b w c1 = add b w c1
       \<and> map_of (buffer c2) x = (if map_of (buffer c) x = Some Add then Some Add else Some Update)
       \<and> (\<forall>c0 ops. buffer c0 = [] \<and> wf_items (items c0) \<and> c = exec c0 ops
              \<and> has_own (items c0) x \<longrightarrow>
            map_of (buffer c2) x = Some Update
          \<and> (\<forall>h. h \<notin> called c2 \<and> buffering c2 = 1 \<longrightarrow>
                 emitted (snd (flush h c2)) =
                   emitted c2 @ emit_data c2 Add @ emit_data c2 Remove
                     @ [Emit Update (data_of c2 Update), Finish]
               \<and> map_of (data_of c2 Update) x = Some (Val v2)
               \<and> x \<notin> fst ` set (data_of c2 Add) \<and> x \<notin> fst ` set (data_of c2 Remove)))
       \<and> (\<forall>c0 ops. buffer c0 = [] \<and> wf_items (items c0) \<and> c = exec c0 ops
              \<and> \<not> has_own (items c0) x
              \<and> ((\<exists>op. ops = [op])
                  \<or> own_key_clears c0 ops
                    \<and> \<not> reaches_proto_accessor (prototype (items c0)) x) \<longrightarrow>
            map_of (buffer c2) x = Some Add)"
proof -
  note st = remove_then_add_states [OF present rm ad c1 c2]
  have kept: "map_of (buffer c2) x = Some Update
          \<and> (\<forall>h. h \<notin> called c2 \<and> buffering c2 = 1 \<longrightarrow>
                 emitted (snd (flush h c2)) =
                   emitted c2 @ emit_data c2 Add @ emit_data c2 Remove
                     @ [Emit Update (data_of c2 Update), Finish]
               \<and> map_of (data_of c2 Update) x = Some (Val v2)
               \<and> x \<notin> fst ` set (data_of c2 Add) \<and> x \<notin> fst ` set (data_of c2 Remove))"
    if b: "buffer c0 = []" "wf_items (items c0)" and run: "c = exec c0 ops"
      and p0: "has_own (items c0) x" for c0 ops
  proof -
    have k: "log_of_kept c x"
      unfolding run by (rule log_of_kept_exec [OF boundary_kept [OF b p0]])
    then have noacc: "\<not> reaches_proto_accessor (prototype (items c)) x"
      by (simp add: log_of_kept_def)
    from k present have "map_of (buffer c) x \<noteq> Some Add" by (auto simp: log_of_kept_def)
    with st(4) have u: "map_of (buffer c2) x = Some Update" by simp
    have "distinct_log c0" by (simp add: distinct_log_def b(1))
    then have "distinct_log c" unfolding run by (rule distinct_log_exec)
    then have "distinct_log c1" unfolding st(5) by (rule distinct_log_apply_op)
    then have dl: "distinct_log c2" unfolding st(6) by (rule distinct_log_apply_op)
    from u flush_outer_update_event [OF dl u st(7) [OF noacc]] show ?thesis by blast
  qed
  have new: "map_of (buffer c2) x = Some Add"
    if b: "buffer c0 = []" "wf_items (items c0)" and run: "c = exec c0 ops"
      and a0: "\<not> has_own (items c0) x"
      and h: "(\<exists>op. ops = [op])
              \<or> own_key_clears c0 ops \<and> \<not> reaches_proto_accessor (prototype (items c0)) x"
    for c0 ops
  proof -
    from h present have "(\<exists>op. ops = [op]) \<and> has_own (items (exec c0 ops)) x
         \<or> own_key_clears c0 ops \<and> \<not> reaches_proto_accessor (prototype (items c0)) x"
      by (auto simp: run)
    from run_of_new [OF b a0 this] have "log_of_new c x" by (simp add: run)
    with present have "map_of (buffer c) x = Some Add" by (simp add: log_of_new_def)
    with st(4) show ?thesis by simp
  qed
  from st(1,2,3,4) kept new show ?thesis by blast
qed

lemmas eval_defs = add_def remove_def set_c_def u_resolveItem_def u_assertValidKey_def
  u_isValidKey_def has_def has_own_def obj_set_def obj_delete_def u_touch_def bufferEvents_def
  store_settled_def store_ab_def Let_def AList.delete_eq

lemma remove_then_readd_coalesces_example:
  "has_own (items store_settled) ''a''
   \<and> map_of (buffer (snd (add (JStr ''a'') (JNum (JInt 3))
                           (snd (remove (JStr ''a'') store_settled))))) ''a'' = Some Update
   \<and> emitted (snd (flush 1 (snd (add (JStr ''a'') (JNum (JInt 3))
                                  (snd (remove (JStr ''a'') store_settled))))))
       = emitted store_settled @ [Emit Update [(''a'', Val (JNum (JInt 3)))], Finish]
   \<and> \<not> has_own (items store_settled) ''z''
   \<and> map_of (buffer (snd (add (JStr ''z'') (JNum (JInt 1))
                (snd (remove (JStr ''z'')
                   (exec store_settled [OpAdd (JStr ''z'') (JNum (JInt 1))])))))) ''z'' = Some Add"
proof -
  let ?c2 = "snd (add (JStr ''a'') (JNum (JInt 3)) (snd (remove (JStr ''a'') store_settled)))"
  have b: "buffer store_settled = []" "wf_items (items store_settled)"
    by (simp_all add: store_settled_def store_ab_def wf_items_def has_own_def own_keys_def)
  have run: "store_settled = exec store_settled []" by (simp add: exec_def)
  have pa: "has_own (items store_settled) ''a''"
    and nz: "\<not> has_own (items store_settled) ''z''"
    by (simp_all add: store_settled_def store_ab_def has_own_def)
  have rm: "u_resolveItem (JStr ''a'') JUndefined = Inr (KeyStr ''a'', JUndefined)"
    "property_key (KeyStr ''a'') = ''a''"
    by (simp_all add: u_resolveItem_def u_assertValidKey_def u_isValidKey_def)
  have ad: "u_resolveItem (JStr ''a'') (JNum (JInt 3)) = Inr (KeyStr ''a'', JNum (JInt 3))"
    by (simp add: u_resolveItem_def u_assertValidKey_def)
  note T = remove_then_readd_coalesces [OF pa rm ad rm(2) refl refl]
  from T b run pa have u: "map_of (buffer ?c2) ''a'' = Some Update" by blast
  have c2: "?c2 =
      store_settled\<lparr>buffer := [(''a'', Update)], buffering := 1,
        items := \<lparr>own = [(''b'', JNum (JInt 2)), (''a'', JNum (JInt 3))],
                  prototype = ProtoObjectPrototype\<rparr>,
        size_c := 2, closures := 2, nextTick := [1]\<rparr>"
    by (simp add: eval_defs)
  have pre: "1 \<notin> called ?c2 \<and> buffering ?c2 = 1"
    by (simp add: c2) (simp add: store_settled_def store_ab_def)
  from T b run pa pre have "emitted (snd (flush 1 ?c2)) =
      emitted ?c2 @ emit_data ?c2 Add @ emit_data ?c2 Remove @ [Emit Update (data_of ?c2 Update), Finish]"
    by blast
  then have e: "emitted (snd (flush 1 ?c2)) =
      emitted store_settled @ [Emit Update [(''a'', Val (JNum (JInt 3)))], Finish]"
    by (simp add: c2 emit_data_def data_of_def isEmpty_def obj_get_def)
  let ?d = "exec store_settled [OpAdd (JStr ''z'') (JNum (JInt 1))]"
  have pz: "has_own (items ?d) ''z''"
    by (simp add: exec_def eval_defs)
  have rmz: "u_resolveItem (JStr ''z'') JUndefined = Inr (KeyStr ''z'', JUndefined)"
    "property_key (KeyStr ''z'') = ''z''"
    by (simp_all add: u_resolveItem_def u_assertValidKey_def u_isValidKey_def)
  have adz: "u_resolveItem (JStr ''z'') (JNum (JInt 1)) = Inr (KeyStr ''z'', JNum (JInt 1))"
    by (simp add: u_resolveItem_def u_assertValidKey_def)
  from remove_then_readd_coalesces [OF pz rmz adz rmz(2) refl refl] b nz
  have z: "map_of (buffer (snd (add (JStr ''z'') (JNum (JInt 1))
                (snd (remove (JStr ''z'') ?d))))) ''z'' = Some Add"
    by blast
  from pa u e nz z show ?thesis by blast
qed

lemma unset_present:
  "u_resolveItem a JUndefined = Inr (k, v) \<Longrightarrow> has_own (items c) (property_key k) \<Longrightarrow>
     unset a c = remove a c"
  by (simp add: unset_def remove_def has_def)

lemma remove_absent:
  "u_resolveItem a JUndefined = Inr (k, v) \<Longrightarrow> \<not> has_own (items c) (property_key k) \<Longrightarrow>
     remove a c = (Inl (NoSuchItem k), c)"
  by (simp add: remove_def has_def)

lemma add_then_remove_states:
  assumes absent: "\<not> has_own (items c) x"
    and ad: "u_resolveItem b w = Inr (k2, v2)" "property_key k2 = x"
    and rm: "u_resolveItem a JUndefined = Inr (k1, v1)" "property_key k1 = x"
    and c1: "c1 = snd (add b w c)" and c2: "c2 = snd (remove a c1)"
  shows "fst (add b w c) = Inr ()"
    and "\<not> reaches_proto_accessor (prototype (items c)) x \<Longrightarrow> fst (remove a c1) = Inr ()"
    and "fst (remove a c1) = Inr () \<Longrightarrow>
           unset a c1 = remove a c1 \<and> \<not> has_own (items c2) x
         \<and> map_of (buffer c2) x = (if map_of (buffer c) x = None then None else Some Remove)"
proof -
  define m where "m = size_c c + 1"
  from absent have ab: "\<not> has_own (items c) (property_key k2)" by (simp add: ad(2))
  have d: "add b w c =
      (Inr (), u_touch Add k2 (c\<lparr>items := obj_set (items c) (property_key k2) v2, size_c := m\<rparr>))"
    using add_absent [OF ad(1) ab] by (simp add: m_def)
  then have c1': "c1 = u_touch Add k2 (c\<lparr>items := obj_set (items c) (property_key k2) v2, size_c := m\<rparr>)"
    by (simp add: c1)
  note s1 = added_state [OF c1']
  show "fst (add b w c) = Inr ()" by (simp add: d)
  show "fst (remove a c1) = Inr ()" if "\<not> reaches_proto_accessor (prototype (items c)) x"
  proof -
    from s1(2) that have "has_own (items c1) (property_key k1)"
      by (simp add: has_own_def ad(2) rm(2))
    from remove_present [OF rm(1) this] show ?thesis by simp
  qed
  show "unset a c1 = remove a c1 \<and> \<not> has_own (items c2) x
         \<and> map_of (buffer c2) x = (if map_of (buffer c) x = None then None else Some Remove)"
    if ok: "fst (remove a c1) = Inr ()"
  proof -
    have pr: "has_own (items c1) (property_key k1)"
    proof (rule ccontr)
      assume "\<not> has_own (items c1) (property_key k1)"
      from remove_absent [OF rm(1) this] ok show False by simp
    qed
    define n where "n = size_c c1 - 1"
    have "remove a c1 =
      (Inr (), u_touch Remove k1 (c1\<lparr>items := obj_delete (items c1) (property_key k1), size_c := n\<rparr>))"
      using remove_present [OF rm(1) pr] by (simp add: n_def)
    then have c2': "c2 = u_touch Remove k1 (c1\<lparr>items := obj_delete (items c1) (property_key k1), size_c := n\<rparr>)"
      by (simp add: c2)
    note s2 = removed_state [OF c2']
    from s2(1) s2(3) s1(1) unset_present [OF rm(1) pr] show ?thesis
      by (simp add: ad(2) rm(2))
  qed
qed

lemma flush_outer_emitted:
  assumes "h \<notin> called c" and "buffering c = 1"
  shows "emitted (snd (flush h c)) =
           emitted c @ (if buffer c = [] then []
                        else emit_data c Add @ emit_data c Remove @ emit_data c Update @ [Finish])"
  using flush_outer_nonempty [OF assms] flush_outer_empty [OF assms] by simp

text \<open>
  Where add followed by remove coalesces. Take any store \<open>c\<close> in which the property
  name \<open>x\<close> is absent.
  \<^verbatim>\<open>add\<close> of that key succeeds; the \<^verbatim>\<open>remove\<close> that follows succeeds when
  assigning \<open>x\<close> on the item object creates an own property, and \<^verbatim>\<open>unset\<close> then does
  the same as \<^verbatim>\<open>remove\<close>; after it \<open>x\<close> is absent again, and the pending log has no
  entry for \<open>x\<close> if it had none before the two calls. If \<open>c\<close> is the store reached from
  a flush boundary \<open>c0\<close> (empty log) at which \<open>x\<close> was absent, then after the two calls
  the log has no entry for \<open>x\<close>, no payload of the next batch names \<open>x\<close>, and the
  invocation that closes the outermost scope emits only what the rest of the log holds
  (nothing when the log is empty). This holds when the two calls directly follow the
  boundary and the \<^verbatim>\<open>remove\<close> succeeded, and also after any run in which
  \<^verbatim>\<open>clear\<close> walks the own keys, when assigning \<open>x\<close> on the item object creates an
  own property.
\<close>

lemma add_then_remove_leaves_no_entry:
  assumes absent: "\<not> has_own (items c) x"
    and ad: "u_resolveItem b w = Inr (k2, v2)" "property_key k2 = x"
    and rm: "u_resolveItem a JUndefined = Inr (k1, v1)" "property_key k1 = x"
    and c1: "c1 = snd (add b w c)" and c2: "c2 = snd (remove a c1)"
  shows "fst (add b w c) = Inr ()
       \<and> (\<not> reaches_proto_accessor (prototype (items c)) x \<longrightarrow> fst (remove a c1) = Inr ())
       \<and> (fst (remove a c1) = Inr () \<longrightarrow>
             unset a c1 = remove a c1 \<and> \<not> has_own (items c2) x
           \<and> map_of (buffer c2) x = (if map_of (buffer c) x = None then None else Some Remove))
       \<and> (\<forall>c0 ops. buffer c0 = [] \<and> wf_items (items c0) \<and> c = exec c0 ops
              \<and> \<not> has_own (items c0) x
              \<and> (ops = [] \<and> fst (remove a c1) = Inr ()
                  \<or> own_key_clears c0 ops
                    \<and> \<not> reaches_proto_accessor (prototype (items c0)) x) \<longrightarrow>
            fst (remove a c1) = Inr ()
          \<and> map_of (buffer c2) x = None
          \<and> (\<forall>act. x \<notin> fst ` set (data_of c2 act))
          \<and> (\<forall>h. h \<notin> called c2 \<and> buffering c2 = 1 \<longrightarrow>
                 emitted (snd (flush h c2)) =
                   emitted c2 @ (if buffer c2 = [] then []
                                 else emit_data c2 Add @ emit_data c2 Remove
                                        @ emit_data c2 Update @ [Finish])))"
proof -
  note st = add_then_remove_states [OF absent ad rm c1 c2]
  have scope: "fst (remove a c1) = Inr ()
          \<and> map_of (buffer c2) x = None
          \<and> (\<forall>act. x \<notin> fst ` set (data_of c2 act))
          \<and> (\<forall>h. h \<notin> called c2 \<and> buffering c2 = 1 \<longrightarrow>
                 emitted (snd (flush h c2)) =
                   emitted c2 @ (if buffer c2 = [] then []
                                 else emit_data c2 Add @ emit_data c2 Remove
                                        @ emit_data c2 Update @ [Finish]))"
    if b: "buffer c0 = []" "wf_items (items c0)" and run: "c = exec c0 ops"
      and a0: "\<not> has_own (items c0) x"
      and h: "ops = [] \<and> fst (remove a c1) = Inr ()
              \<or> own_key_clears c0 ops \<and> \<not> reaches_proto_accessor (prototype (items c0)) x"
    for c0 ops
  proof -
    have "fst (remove a c1) = Inr () \<and> map_of (buffer c) x = None"
    proof (cases "ops = [] \<and> fst (remove a c1) = Inr ()")
      case True
      then show ?thesis by (simp add: run exec_def b(1))
    next
      case False
      with h have "own_key_clears c0 ops \<and> \<not> reaches_proto_accessor (prototype (items c0)) x"
        by blast
      with run_of_new [OF b a0] have nw: "log_of_new c x" by (simp add: run)
      then have "\<not> reaches_proto_accessor (prototype (items c)) x"
        by (simp add: log_of_new_def)
      with st(2) nw absent show ?thesis by (simp add: log_of_new_def)
    qed
    with st(3) have ok: "fst (remove a c1) = Inr ()" and none: "map_of (buffer c2) x = None"
      by simp_all
    from none have "\<forall>act. x \<notin> fst ` set (data_of c2 act)"
      using data_of_absent_None by blast
    with ok none show ?thesis
      using flush_outer_emitted [of _ c2] by blast
  qed
  from st(1) st(2) st(3) scope show ?thesis by blast
qed

lemma add_then_remove_leaves_no_entry_example:
  "buffer store_settled = [] \<and> \<not> has_own (items store_settled) ''z''
   \<and> add (JStr ''z'') (JNum (JInt 1)) store_settled =
       (Inr (),
        store_settled\<lparr>buffer := [(''z'', Add)], buffering := 1,
          items := \<lparr>own = [(''a'', JNum (JInt 1)), (''b'', JNum (JInt 2)), (''z'', JNum (JInt 1))],
                    prototype = ProtoObjectPrototype\<rparr>,
          size_c := 3, closures := 2, nextTick := [1]\<rparr>)
   \<and> remove (JStr ''z'') (snd (add (JStr ''z'') (JNum (JInt 1)) store_settled)) =
       (Inr (), store_settled\<lparr>buffering := 1, closures := 2, nextTick := [1]\<rparr>)
   \<and> map_of (buffer (snd (remove (JStr ''z'') (snd (add (JStr ''z'') (JNum (JInt 1)) store_settled)))))
        ''z'' = None
   \<and> emitted (snd (flush 1 (snd (remove (JStr ''z'')
                 (snd (add (JStr ''z'') (JNum (JInt 1)) store_settled))))))
       = emitted store_settled"
proof -
  let ?c1 = "snd (add (JStr ''z'') (JNum (JInt 1)) store_settled)"
  let ?c2 = "snd (remove (JStr ''z'') ?c1)"
  have b: "buffer store_settled = []" "wf_items (items store_settled)"
    by (simp_all add: store_settled_def store_ab_def wf_items_def has_own_def own_keys_def)
  have run: "store_settled = exec store_settled []" by (simp add: exec_def)
  have nz: "\<not> has_own (items store_settled) ''z''"
    by (simp add: store_settled_def store_ab_def has_own_def)
  have ad: "u_resolveItem (JStr ''z'') (JNum (JInt 1)) = Inr (KeyStr ''z'', JNum (JInt 1))"
    by (simp add: u_resolveItem_def u_assertValidKey_def)
  have rm: "u_resolveItem (JStr ''z'') JUndefined = Inr (KeyStr ''z'', JUndefined)"
    "property_key (KeyStr ''z'') = ''z''"
    by (simp_all add: u_resolveItem_def u_assertValidKey_def u_isValidKey_def)
  have a: "add (JStr ''z'') (JNum (JInt 1)) store_settled =
       (Inr (),
        store_settled\<lparr>buffer := [(''z'', Add)], buffering := 1,
          items := \<lparr>own = [(''a'', JNum (JInt 1)), (''b'', JNum (JInt 2)), (''z'', JNum (JInt 1))],
                    prototype = ProtoObjectPrototype\<rparr>,
          size_c := 3, closures := 2, nextTick := [1]\<rparr>)"
    by (simp add: eval_defs)
  have r: "remove (JStr ''z'') ?c1 =
       (Inr (), store_settled\<lparr>buffering := 1, closures := 2, nextTick := [1]\<rparr>)"
    by (simp add: a) (simp add: eval_defs)
  have ok: "fst (remove (JStr ''z'') ?c1) = Inr ()" by (simp add: r)
  note T = add_then_remove_leaves_no_entry [OF nz ad rm(2) rm refl refl]
  from T b run nz ok have n: "map_of (buffer ?c2) ''z'' = None" by blast
  have pre: "1 \<notin> called ?c2 \<and> buffering ?c2 = 1"
    by (simp add: r) (simp add: store_settled_def store_ab_def)
  have emp: "buffer ?c2 = []" by (simp add: r) (simp add: store_settled_def)
  from T b run nz ok pre
  have "emitted (snd (flush 1 ?c2)) =
          emitted ?c2 @ (if buffer ?c2 = [] then []
                         else emit_data ?c2 Add @ emit_data ?c2 Remove @ emit_data ?c2 Update
                                @ [Finish])"
    by blast
  then have e: "emitted (snd (flush 1 ?c2)) = emitted store_settled"
    by (simp add: emp) (simp add: r)
  from b(1) nz a r n e show ?thesis by blast
qed

subsection \<open>Size and clear\<close>

text \<open>Over operations that neither assign \<^verbatim>\<open>__proto__\<close> nor clear an array-like
  item object, the size stays the number of keys.\<close>

lemma ownable_other: "x \<noteq> ''__proto__'' \<Longrightarrow> ownable ob x"
  using reaches_proto_accessor_name [of "prototype ob" x] by (auto simp: ownable_def)

lemma own_keys_obj_set:
  "ownable ob x \<Longrightarrow>
     own_keys (obj_set ob x v) = (if has_own ob x then own_keys ob else own_keys ob @ [x])"
  by (simp add: obj_set_ownable own_keys_def AList.update_keys has_own_def map_of_eq_None_iff)

lemma own_keys_obj_delete: "own_keys (obj_delete ob x) = removeAll x (own_keys ob)"
  by (simp add: obj_delete_def own_keys_def AList.delete_keys)

lemma length_removeAll_distinct:
  "distinct xs \<Longrightarrow> x \<in> set xs \<Longrightarrow> int (length (removeAll x xs)) = int (length xs) - 1"
  by (induction xs) (auto simp: distinct_removeAll)

lemma size_ok_added:
  assumes "size_ok c" and "\<not> has_own (items c) (property_key k)"
    and "property_key k \<noteq> ''__proto__''"
  shows "size_ok (u_touch Add k (c\<lparr>items := obj_set (items c) (property_key k) v,
                                    size_c := size_c c + 1\<rparr>))"
  using assms(1,2)
  by (simp add: size_ok_def u_touch_frame own_keys_obj_set [OF ownable_other [OF assms(3)]])
     (simp add: has_own_keys)

lemma size_ok_removed:
  assumes "size_ok c" and "has_own (items c) (property_key k)"
  shows "size_ok (u_touch Remove k (c\<lparr>items := obj_delete (items c) (property_key k),
                                       size_c := size_c c - 1\<rparr>))"
  using assms
  by (simp add: size_ok_def u_touch_frame own_keys_obj_delete
      distinct_removeAll length_removeAll_distinct has_own_keys)

lemma size_ok_updated:
  assumes "size_ok c" and "has_own (items c) (property_key k)"
  shows "size_ok (u_touch Update k (c\<lparr>items := obj_set (items c) (property_key k) v\<rparr>))"
proof -
  from assms(2) have o: "ownable (items c) (property_key k)" by (simp add: ownable_def)
  from assms show ?thesis
    by (simp add: size_ok_def u_touch_frame own_keys_obj_set [OF o])
qed

lemma size_ok_touched: "size_ok c \<Longrightarrow> size_ok (u_touch act k c)"
  by (simp add: size_ok_def u_touch_frame)

lemma size_ok_cleared:
  assumes "size_ok c" and "isLength (obj_get (items c) ''length'') = None"
  shows "size_ok (snd (clear c))" and "size_c (snd (clear c)) = 0"
    and "own (items (snd (clear c))) = []"
proof -
  from assms(1) have d: "distinct (own_keys (items c))" by (simp add: size_ok_def)
  note r = clear_removes_every_item [OF assms(2) d]
  from assms(1) show "size_ok (snd (clear c))"
    by (simp add: size_ok_def r(2)) (simp add: own_keys_def r(1))
  from assms(1) show "size_c (snd (clear c)) = 0" by (simp add: size_ok_def r(2))
  show "own (items (snd (clear c))) = []" by (rule r(1))
qed

lemma size_ok_apply_op:
  assumes "size_ok c" and "plain_op c op"
  shows "size_ok (apply_op c op)"
proof (cases op)
  case (OpAdd a v)
  with assms show ?thesis
    by (auto simp: add_def has_def plain_op_def size_ok_added split: sum.splits prod.splits)
next
  case (OpSet a v)
  with assms show ?thesis
    by (auto simp: set_c_def has_def Let_def plain_op_def size_ok_added size_ok_updated
        split: sum.splits prod.splits)
next
  case (OpUpdate a v)
  with assms(1) show ?thesis
    by (auto simp: update_def has_def size_ok_updated split: sum.splits prod.splits)
next
  case (OpRemove a)
  with assms(1) show ?thesis
    by (auto simp: remove_def has_def size_ok_removed split: sum.splits prod.splits)
next
  case (OpUnset a)
  with assms(1) show ?thesis
    by (auto simp: unset_def has_def size_ok_removed split: sum.splits prod.splits)
next
  case (OpTouch a)
  with assms(1) show ?thesis
    by (auto simp: touch_def has_def Let_def size_ok_touched split: sum.splits prod.splits)
next
  case OpClear
  with assms show ?thesis by (simp add: size_ok_cleared plain_op_def)
qed

lemma size_ok_exec: "size_ok c \<Longrightarrow> plain_run c ops \<Longrightarrow> size_ok (exec c ops)"
  unfolding exec_def by (induction ops arbitrary: c) (simp_all add: size_ok_apply_op)

lemma size_ok_constructor: "size_ok constructor"
  by (simp add: size_ok_def constructor_def empty_object_def own_keys_def)

text \<open>
  Claim C9 fails on the code. On a new collection \<^verbatim>\<open>add('__proto__', 1)\<close> succeeds
  and increments the size to 1, but the assignment \<^verbatim>\<open>this._items['__proto__'] = 1\<close>
  goes to the inherited \<^verbatim>\<open>__proto__\<close> setter, which ignores the number: the item
  object still has no key, and \<^verbatim>\<open>has('__proto__')\<close> is false.
\<close>

theorem size_differs_after_add_proto:
  "fst (add (JStr ''__proto__'') (JNum (JInt 1)) constructor) = Inr ()
   \<and> size_c (snd (add (JStr ''__proto__'') (JNum (JInt 1)) constructor)) = 1
   \<and> own_keys (items (snd (add (JStr ''__proto__'') (JNum (JInt 1)) constructor))) = []
   \<and> \<not> has (snd (add (JStr ''__proto__'') (JNum (JInt 1)) constructor)) (KeyStr ''__proto__'')
   \<and> buffer (snd (add (JStr ''__proto__'') (JNum (JInt 1)) constructor)) = [(''__proto__'', Add)]"
  by (simp add: add_def u_resolveItem_def u_assertValidKey_def has_def has_own_def obj_set_def
      u_touch_def bufferEvents_def constructor_def empty_object_def own_keys_def Let_def)

lemma store_length_reached:
  "add (JStr ''length'') (JNum (JInt 2)) constructor = (Inr (), store_length)"
  by (simp add: store_length_def add_def u_resolveItem_def u_assertValidKey_def has_def has_own_def
      obj_set_def u_touch_def bufferEvents_def constructor_def empty_object_def Let_def)

lemma forEach_keys_store_length:
  "forEach_keys (items store_length) = [KeyNum (JInt 0), KeyNum (JInt 1)]"
  by (simp add: forEach_keys_def store_length_def obj_get_def upt_rec)

lemma property_key_index:
  "property_key (KeyNum (JInt 0)) = ''0''" "property_key (KeyNum (JInt 1)) = ''1''"
  by code_simp+

lemma clear_after_add_proto:
  "own (items (snd (clear (snd (add (JStr ''__proto__'') (JNum (JInt 1)) constructor))))) = []
   \<and> size_c (snd (clear (snd (add (JStr ''__proto__'') (JNum (JInt 1)) constructor)))) = 1"
  by (simp add: add_def u_resolveItem_def u_assertValidKey_def has_def has_own_def obj_set_def
      u_touch_def bufferEvents_def constructor_def empty_object_def own_keys_def Let_def
      clear_def forEach_keys_def obj_get_def object_prototype_get_def object_prototype_methods_def)

text \<open>
  Claim C10 fails on the code. After \<^verbatim>\<open>add('length', 2)\<close> on a new collection the
  item object has a \<^verbatim>\<open>length\<close> that is a valid array length, so \<^verbatim>\<open>forEach\<close>
  calls back with the indices 0 and 1: \<^verbatim>\<open>clear\<close> keeps the item \<^verbatim>\<open>length\<close>,
  brings the size to -1 and records Removed for the keys 0 and 1, which were never
  present. And after \<^verbatim>\<open>add('__proto__', 1)\<close> on a new collection, \<^verbatim>\<open>clear\<close>
  finds no key and leaves the size at 1.
\<close>

theorem clear_keeps_item_named_length:
  "add (JStr ''length'') (JNum (JInt 2)) constructor = (Inr (), store_length)
   \<and> fst (clear store_length) = Inr ()
   \<and> own (items (snd (clear store_length))) = [(''length'', JNum (JInt 2))]
   \<and> size_c (snd (clear store_length)) = - 1
   \<and> buffer (snd (clear store_length)) = [(''length'', Add), (''0'', Remove), (''1'', Remove)]
   \<and> own (items (snd (clear (snd (add (JStr ''__proto__'') (JNum (JInt 1)) constructor))))) = []
   \<and> size_c (snd (clear (snd (add (JStr ''__proto__'') (JNum (JInt 1)) constructor)))) = 1"
  using clear_after_add_proto
  by (simp add: store_length_reached clear_def [of store_length] forEach_keys_store_length
        clear_item_def u_touch_def property_key_index del: property_key.simps)
     (simp add: store_length_def constructor_def obj_delete_def AList.delete_eq)

subsection \<open>Coalescing after a lost or a spurious log entry\<close>

lemmas step_defs = add_def remove_def u_resolveItem_def u_assertValidKey_def u_isValidKey_def
  has_def has_own_def obj_set_def obj_delete_def u_touch_def bufferEvents_def Let_def
  AList.delete_eq

lemma proto_steps:
  "add (JStr ''__proto__'') JNull constructor = (Inr (), store_p1)"
  "add (JStr ''__proto__'') (JNum (JInt 5)) store_p1 = (Inr (), store_p2)"
  "remove (JStr ''__proto__'') store_p2 = (Inr (), store_p3)"
  "add (JStr ''__proto__'') (JNum (JInt 7)) store_p3 = (Inr (), store_p4)"
  by (simp_all add: step_defs store_p1_def store_p2_def store_p3_def store_p4_def
      constructor_def empty_object_def)

lemma proto_flushes:
  "flush 0 store_p4 =
     (Inr (), store_p4\<lparr>called := {0}, buffering := 0,
        emitted := [Emit Update [(''__proto__'', Val (JNum (JInt 7)))], Finish], buffer := []\<rparr>)"
  "flush 0 store_p3 =
     (Inr (), store_p3\<lparr>called := {0}, buffering := 0,
        emitted := [Emit Remove [(''__proto__'', Val JUndefined)], Finish], buffer := []\<rparr>)"
  by (simp_all add: flush_def Let_def isEmpty_def emit_data_def data_of_def obj_get_def
      store_p1_def store_p3_def store_p4_def constructor_def)

lemma clear_store_length: "clear store_length = (Inr (), store_length_cleared)"
  by (simp add: clear_def forEach_keys_store_length clear_item_def
        u_touch_def property_key_index del: property_key.simps)
     (simp add: store_length_def store_length_cleared_def constructor_def obj_delete_def
        AList.delete_eq)

lemma length_steps:
  "add (JStr ''0'') (JNum (JInt 5)) store_length_cleared = (Inr (), store_l3)"
  "remove (JStr ''0'') store_l3 = (Inr (), store_length_cleared)"
  "add (JStr ''0'') (JNum (JInt 6)) store_length_cleared = (Inr (), store_l5)"
  by (simp_all add: step_defs store_l3_def store_l5_def store_length_cleared_def
      store_length_def constructor_def)

lemma length_flushes:
  "emitted (snd (flush 0 store_length_cleared)) =
     [Emit Add [(''length'', Val (JNum (JInt 2)))],
      Emit Remove [(''0'', Val JUndefined), (''1'', Val JUndefined)], Finish]"
  "emitted (snd (flush 0 store_l5)) =
     [Emit Add [(''length'', Val (JNum (JInt 2)))],
      Emit Remove [(''1'', Val JUndefined)],
      Emit Update [(''0'', Val (JNum (JInt 6)))], Finish]"
  by (simp_all add: flush_def Let_def isEmpty_def emit_data_def data_of_def obj_get_def
      object_prototype_get_def object_prototype_methods_def
      store_l5_def store_length_cleared_def store_length_def constructor_def)

text \<open>
  Claim C1 fails on the code. On a new collection \<^verbatim>\<open>add('__proto__', null)\<close> only
  removes the prototype of the item object, yet it counts the key and logs it as Added;
  \<^verbatim>\<open>add('__proto__', 5)\<close> then stores the key and turns the entry into Updated. The
  key is now present, was absent before the scope, and \<^verbatim>\<open>remove\<close> followed by
  \<^verbatim>\<open>add\<close> records it as Updated, not Added: the closing flush emits an
  \<^verbatim>\<open>update\<close> event for it. The same happens to the key \<^verbatim>\<open>0\<close> after
  \<^verbatim>\<open>add('length', 2); clear(); add('0', 5)\<close>, since \<^verbatim>\<open>clear\<close> logged a removal
  of the absent key \<^verbatim>\<open>0\<close>.
\<close>

theorem readd_of_new_key_recorded_updated:
  "\<not> has constructor (KeyStr ''__proto__'') \<and> buffer constructor = []
   \<and> add (JStr ''__proto__'') JNull constructor = (Inr (), store_p1)
   \<and> add (JStr ''__proto__'') (JNum (JInt 5)) store_p1 = (Inr (), store_p2)
   \<and> has store_p2 (KeyStr ''__proto__'')
   \<and> remove (JStr ''__proto__'') store_p2 = (Inr (), store_p3)
   \<and> add (JStr ''__proto__'') (JNum (JInt 7)) store_p3 = (Inr (), store_p4)
   \<and> map_of (buffer store_p4) ''__proto__'' = Some Update
   \<and> emitted (snd (flush 0 store_p4)) = [Emit Update [(''__proto__'', Val (JNum (JInt 7)))], Finish]
   \<and> \<not> has constructor (KeyStr ''0'')
   \<and> add (JStr ''length'') (JNum (JInt 2)) constructor = (Inr (), store_length)
   \<and> clear store_length = (Inr (), store_length_cleared)
   \<and> add (JStr ''0'') (JNum (JInt 5)) store_length_cleared = (Inr (), store_l3)
   \<and> has store_l3 (KeyStr ''0'')
   \<and> remove (JStr ''0'') store_l3 = (Inr (), store_length_cleared)
   \<and> add (JStr ''0'') (JNum (JInt 6)) store_length_cleared = (Inr (), store_l5)
   \<and> map_of (buffer store_l5) ''0'' = Some Update
   \<and> emitted (snd (flush 0 store_l5)) =
       [Emit Add [(''length'', Val (JNum (JInt 2)))],
        Emit Remove [(''1'', Val JUndefined)],
        Emit Update [(''0'', Val (JNum (JInt 6)))], Finish]"
  by (simp add: proto_steps proto_flushes length_steps length_flushes clear_store_length
        store_length_reached)
     (simp add: has_def has_own_def constructor_def empty_object_def store_p1_def store_p2_def
        store_p4_def store_l3_def store_l5_def store_length_cleared_def)

text \<open>
  Claim C2 fails on the code. On a new collection, after \<^verbatim>\<open>add('__proto__', null)\<close>
  (which stores nothing but logs the key as Added), the key is still absent;
  \<^verbatim>\<open>add('__proto__', 5)\<close> and \<^verbatim>\<open>remove('__proto__')\<close> both succeed, and the
  pending log keeps the entry Removed for a key that was absent before the scope: the
  closing flush emits a \<^verbatim>\<open>remove\<close> event naming it. The same happens to the key
  \<^verbatim>\<open>0\<close> with \<^verbatim>\<open>add('0', 5); remove('0')\<close> after
  \<^verbatim>\<open>add('length', 2); clear()\<close>.
\<close>

theorem add_then_remove_of_new_key_keeps_removed:
  "\<not> has constructor (KeyStr ''__proto__'') \<and> buffer constructor = []
   \<and> add (JStr ''__proto__'') JNull constructor = (Inr (), store_p1)
   \<and> \<not> has store_p1 (KeyStr ''__proto__'')
   \<and> add (JStr ''__proto__'') (JNum (JInt 5)) store_p1 = (Inr (), store_p2)
   \<and> remove (JStr ''__proto__'') store_p2 = (Inr (), store_p3)
   \<and> map_of (buffer store_p3) ''__proto__'' = Some Remove
   \<and> emitted (snd (flush 0 store_p3)) = [Emit Remove [(''__proto__'', Val JUndefined)], Finish]
   \<and> \<not> has constructor (KeyStr ''0'')
   \<and> add (JStr ''length'') (JNum (JInt 2)) constructor = (Inr (), store_length)
   \<and> clear store_length = (Inr (), store_length_cleared)
   \<and> \<not> has store_length_cleared (KeyStr ''0'')
   \<and> add (JStr ''0'') (JNum (JInt 5)) store_length_cleared = (Inr (), store_l3)
   \<and> remove (JStr ''0'') store_l3 = (Inr (), store_length_cleared)
   \<and> map_of (buffer store_length_cleared) ''0'' = Some Remove
   \<and> emitted (snd (flush 0 store_length_cleared)) =
       [Emit Add [(''length'', Val (JNum (JInt 2)))],
        Emit Remove [(''0'', Val JUndefined), (''1'', Val JUndefined)], Finish]"
  by (simp add: proto_steps proto_flushes length_steps length_flushes clear_store_length
        store_length_reached)
     (simp add: has_def has_own_def constructor_def empty_object_def store_p1_def store_p3_def
        store_length_cleared_def store_length_def)

end
